theory Spec2Isabelle
  imports Main "HOL-Library.AList" "HOL-Library.Char_ord" "HOL-Library.List_Lexorder"
    "HOL-Library.Multiset"
begin

unbundle bit_operations_syntax

section \<open>JavaScript string and array helpers used by the sources\<close>

text \<open>
  Strings are \<open>string\<close> (lists of 8-bit characters). The helpers below follow the
  ECMAScript functions the sources call: \<open>String.prototype.split\<close> with a one-character
  separator, \<open>Array.prototype.join\<close>, \<open>slice(0, -1)\<close> (which is \<open>butlast\<close>),
  \<open>pop()\<close>/\<open>at(-1)\<close> (the last element, \<open>undefined\<close> on an empty array),
  \<open>String.prototype.trim\<close> and template interpolation of a possibly undefined value.
\<close>

fun js_split :: "char \<Rightarrow> string \<Rightarrow> string list" where
  "js_split c [] = [] # []"
| "js_split c (x # xs) =
     (if x = c then [] # js_split c xs
      else (case js_split c xs of
              [] \<Rightarrow> [x] # []
            | p # ps \<Rightarrow> (x # p) # ps))"

fun js_join :: "string \<Rightarrow> string list \<Rightarrow> string" where
  "js_join sep [] = []"
| "js_join sep [x] = x"
| "js_join sep (x # y # ys) = x @ sep @ js_join sep (y # ys)"

definition js_pop :: "'a list \<Rightarrow> 'a option" where
  "js_pop xs = (if xs = [] then None else Some (last xs))"

definition js_template :: "string option \<Rightarrow> string" where
  "js_template v = (case v of None \<Rightarrow> ''undefined'' | Some s \<Rightarrow> s)"

definition js_or :: "string \<Rightarrow> string \<Rightarrow> string" where
  "js_or a b = (if a = [] then b else a)"

definition js_whitespace :: "char \<Rightarrow> bool" where
  "js_whitespace c = (of_char c \<in> {9, 10, 11, 12, 13, 32, 160 :: nat})"

definition js_trim :: "string \<Rightarrow> string" where
  "js_trim s = rev (dropWhile js_whitespace (rev (dropWhile js_whitespace s)))"

function show_nat :: "nat \<Rightarrow> string" where
  "show_nat n =
     (if n < 10 then [char_of (48 + n)]
      else show_nat (n div 10) @ [char_of (48 + n mod 10)])"
  by pat_completeness auto
termination
  by (relation "measure id") auto

declare show_nat.simps [simp del]

section \<open>Configuration (config.ts)\<close>

text \<open>
  The persisted configuration section: the two values the sources read with
  \<open>getConfig().get\<close>. A missing value is \<open>None\<close>.
\<close>

record config =
  cfg_serverId :: "string option"
  cfg_apiKey :: "string option"

definition HARD_CODED_PANEL_URL :: string where
  "HARD_CODED_PANEL_URL = ''https://voidium.uk''"

definition getPanelUrl :: string where
  "getPanelUrl = HARD_CODED_PANEL_URL"

definition getServerId :: "config \<Rightarrow> string option" where
  "getServerId cfg =
     (case cfg_serverId cfg of
        None \<Rightarrow> None
      | Some serverId \<Rightarrow> (if serverId \<noteq> [] \<and> js_trim serverId \<noteq> [] then Some serverId else None))"

definition getApiKey :: "config \<Rightarrow> string option" where
  "getApiKey cfg =
     (case cfg_apiKey cfg of
        None \<Rightarrow> None
      | Some apiKey \<Rightarrow> (if apiKey \<noteq> [] \<and> js_trim apiKey \<noteq> [] then Some apiKey else None))"

definition buildServerApiUrl :: "string \<Rightarrow> string \<Rightarrow> string" where
  "buildServerApiUrl panelUrl serverId = panelUrl @ ''/api/client/servers/'' @ serverId @ ''/files''"

definition removeStartSlash :: "string \<Rightarrow> string" where
  "removeStartSlash p = (case p of [] \<Rightarrow> [] | c # cs \<Rightarrow> (if c = CHR ''/'' then cs else p))"

section \<open>Connection state (state.ts and its mutations in the activation code)\<close>

record RuntimeState =
  serverApiUrl :: string
  authHeader :: string

definition createRuntimeState :: RuntimeState where
  "createRuntimeState = \<lparr>serverApiUrl = [], authHeader = []\<rparr>"

definition hydrateRuntimeState :: "config \<Rightarrow> RuntimeState \<Rightarrow> RuntimeState" where
  "hydrateRuntimeState cfg st =
     (let panelUrl = getPanelUrl;
          st1 = (case getServerId cfg of
                   Some serverId \<Rightarrow>
                     (if panelUrl \<noteq> [] then st\<lparr>serverApiUrl := buildServerApiUrl panelUrl serverId\<rparr> else st)
                 | None \<Rightarrow> st)
      in (case getApiKey cfg of
            Some apiKey \<Rightarrow> st1\<lparr>authHeader := ''Bearer '' @ apiKey\<rparr>
          | None \<Rightarrow> st1))"

definition connectRuntimeState :: "RuntimeState \<Rightarrow> string \<Rightarrow> string \<Rightarrow> string \<Rightarrow> RuntimeState" where
  "connectRuntimeState st panelUrl serverId apiKey =
     st\<lparr>serverApiUrl := buildServerApiUrl panelUrl serverId, authHeader := ''Bearer '' @ apiKey\<rparr>"

definition clearRuntimeState :: "RuntimeState \<Rightarrow> RuntimeState" where
  "clearRuntimeState st = st\<lparr>serverApiUrl := [], authHeader := []\<rparr>"

text \<open>
  The \<open>onDidChangeConfiguration\<close> handler of \<open>activate\<close>: the two flags are what
  \<open>event.affectsConfiguration\<close> answers for the panel URL or server id, and for the API key.
  The API key is read raw here (not through \<open>getApiKey\<close>), as in the source.
\<close>

definition onDidChangeConfiguration :: "bool \<Rightarrow> bool \<Rightarrow> config \<Rightarrow> RuntimeState \<Rightarrow> RuntimeState" where
  "onDidChangeConfiguration affectsServer affectsApiKey cfg st =
     (let st1 = (if affectsServer then
                   (case getServerId cfg of
                      None \<Rightarrow> st\<lparr>serverApiUrl := []\<rparr>
                    | Some serverId \<Rightarrow>
                        (if getPanelUrl = [] then st\<lparr>serverApiUrl := []\<rparr>
                         else st\<lparr>serverApiUrl := buildServerApiUrl getPanelUrl serverId\<rparr>))
                 else st)
      in (if affectsApiKey then
            (case cfg_apiKey cfg of
               None \<Rightarrow> st1\<lparr>authHeader := []\<rparr>
             | Some apiKey \<Rightarrow> st1\<lparr>authHeader := (if apiKey \<noteq> [] then ''Bearer '' @ apiKey else [])\<rparr>)
          else st1))"

text \<open>
  The synchronous part of the \<open>onAuthenticationFailed\<close> callback registered in \<open>activate\<close>,
  and of the \<open>clearApiKey\<close> command: both blank the credential only.
\<close>

definition authFailedState :: "RuntimeState \<Rightarrow> RuntimeState" where
  "authFailedState st = st\<lparr>authHeader := []\<rparr>"

definition clearApiKeyCommand :: "RuntimeState \<Rightarrow> RuntimeState" where
  "clearApiKeyCommand st = st\<lparr>authHeader := []\<rparr>"

datatype state_event =
    Hydrate config
  | Connect string string string
  | Reset
  | ConfigChanged bool bool config
  | AuthFailed
  | ClearApiKey

fun apply_event :: "RuntimeState \<Rightarrow> state_event \<Rightarrow> RuntimeState" where
  "apply_event st (Hydrate cfg) = hydrateRuntimeState cfg st"
| "apply_event st (Connect panelUrl serverId apiKey) = connectRuntimeState st panelUrl serverId apiKey"
| "apply_event st Reset = clearRuntimeState st"
| "apply_event st (ConfigChanged a b cfg) = onDidChangeConfiguration a b cfg st"
| "apply_event st AuthFailed = authFailedState st"
| "apply_event st ClearApiKey = clearApiKeyCommand st"

definition run_events :: "state_event list \<Rightarrow> RuntimeState" where
  "run_events evs = foldl apply_event createRuntimeState evs"

definition both_or_neither :: "RuntimeState \<Rightarrow> bool" where
  "both_or_neither st = ((serverApiUrl st = []) = (authHeader st = []))"

section \<open>The name of the duplicate made by copy (fsProvider.ts, copy)\<close>

definition parentPath :: "string \<Rightarrow> string" where
  "parentPath p = js_or (js_join ''/'' (butlast (js_split CHR ''/'' p))) ''/''"

definition copiedLocation :: "string \<Rightarrow> string" where
  "copiedLocation sourcePath =
     (let oldName = js_pop (js_split CHR ''/'' sourcePath);
          oldNameSegments = (case oldName of None \<Rightarrow> [] | Some n \<Rightarrow> js_split CHR ''.'' n);
          oldNamePrefix = js_join ''.'' (butlast oldNameSegments);
          oldNameSuffix = js_pop oldNameSegments
      in oldNamePrefix @ '' copy.'' @ js_template oldNameSuffix)"

section \<open>The filesystem bridge (fsProvider.ts, class PterodactylFileSystemProvider)\<close>

subsection \<open>Data exchanged with the panel\<close>

text \<open>
  \<open>vscode.FileType\<close> is a bit-flag enumeration; the sources combine its members with
  \<open>|\<close> and test them with \<open>&\<close> and \<open>===\<close>, so file types are numbers here too.
\<close>

definition FileType_Unknown :: nat where "FileType_Unknown = 0"
definition FileType_File :: nat where "FileType_File = 1"
definition FileType_Directory :: nat where "FileType_Directory = 2"
definition FileType_SymbolicLink :: nat where "FileType_SymbolicLink = 64"
definition FilePermission_Readonly :: nat where "FilePermission_Readonly = 1"

record file_attributes =
  fa_name :: string
  is_file :: bool
  is_symlink :: bool
  created_at :: string
  modified_at :: string
  fa_mode :: string
  fa_size :: nat

record error_entry =
  err_code :: "string option"
  err_detail :: "string option"

text \<open>
  A parsed JSON body: the \<open>data\<close> and \<open>errors\<close> members the sources read, each possibly
  missing. A response carries its raw bytes and, when they parse as JSON, the parsed body;
  \<open>response.json()\<close> rejects when they do not.
\<close>

record json_body =
  json_data :: "file_attributes list option"
  json_errors :: "error_entry list option"

record response =
  status :: nat
  statusText :: string
  url :: string
  body_bytes :: string
  body_json :: "json_body option"

definition response_ok :: "response \<Rightarrow> bool" where
  "response_ok r = (200 \<le> status r \<and> status r \<le> 299)"

datatype fetch_result = Fetch_rejected string | Fetch_response response

text \<open>
  The calls of the remote REST surface, relative to \<open>serverApiUrl\<close>. A request records the
  base URL and the \<open>Authorization\<close> header it was sent with; the proxy rewriting and the
  percent-encoding of the query string are not represented.
\<close>

datatype call =
    List_directory string
  | Get_contents string
  | Post_write string string
  | Post_create_folder string
  | Post_delete string
  | Put_rename string string
  | Post_copy string

record request =
  req_base :: string
  req_authorization :: string
  req_call :: call

text \<open>
  \<open>vscode.FileSystemError\<close> factories, plus \<open>Js_error\<close> for every other thrown value
  (a rejected \<open>fetch\<close>, a \<open>SyntaxError\<close> of \<open>json()\<close>, a \<open>TypeError\<close>).
\<close>

datatype fs_error =
    Unavailable string
  | NoPermissions string
  | FileNotFound string
  | FileExists string
  | FileIsADirectory string
  | Js_error string

record file_stat =
  st_ctime :: int
  st_mtime :: int
  st_permissions :: "nat option"
  st_size :: nat
  st_type :: nat

record uri =
  uri_path :: string
  uri_toString :: string

subsection \<open>Environment and mutable state\<close>

text \<open>
  The environment is everything outside the repository: the panel (the answer to the
  \<open>n\<close>-th request ever issued), the user's answer to the \<open>n\<close>-th warning dialog
  (\<open>showWarningMessage\<close> resolves to the chosen button or to \<open>undefined\<close>), and date parsing.
\<close>

record env =
  remote :: "nat \<Rightarrow> request \<Rightarrow> fetch_result"
  warningChoice :: "nat \<Rightarrow> string option"
  getTime :: "string \<Rightarrow> int"

text \<open>
  The provider's fields and what it does to the outside: the requests issued so far, the
  warnings shown, how often \<open>onAuthenticationFailed\<close> ran, the clock in milliseconds, the
  pending cache-eviction timeouts (due time and cache key) and the delays slept by
  \<open>readFile\<close>. Log lines are not recorded.
\<close>

record world =
  state :: RuntimeState
  responseCache :: "string \<rightharpoonup> file_stat"
  responseCacheHits :: "string \<rightharpoonup> nat"
  requests :: "request list"
  warningsShown :: nat
  authFailedCalls :: nat
  clock :: nat
  evictionTimers :: "(nat \<times> string) list"
  sleeps :: "nat list"

type_synonym 'a outcome = "(fs_error + 'a) \<times> world"

definition onAuthenticationFailed :: "world \<Rightarrow> world" where
  "onAuthenticationFailed w =
     w\<lparr>state := authFailedState (state w), authFailedCalls := Suc (authFailedCalls w)\<rparr>"

definition evict :: "string \<Rightarrow> world \<Rightarrow> world" where
  "evict cacheKey w =
     w\<lparr>responseCache := (responseCache w)(cacheKey := None),
       responseCacheHits := (responseCacheHits w)(cacheKey := None)\<rparr>"

text \<open>Letting \<open>ms\<close> milliseconds pass runs every timeout that has come due.\<close>

definition advance :: "nat \<Rightarrow> world \<Rightarrow> world" where
  "advance ms w =
     (let t = clock w + ms;
          due = filter (\<lambda>(at, k). at \<le> t) (evictionTimers w);
          w1 = fold (\<lambda>(at, k). evict k) due w
      in w1\<lparr>clock := t, evictionTimers := filter (\<lambda>(at, k). \<not> at \<le> t) (evictionTimers w)\<rparr>)"

definition sleep :: "nat \<Rightarrow> world \<Rightarrow> world" where
  "sleep ms w = (advance ms w)\<lparr>sleeps := sleeps w @ [ms]\<rparr>"

definition request_for :: "world \<Rightarrow> call \<Rightarrow> request" where
  "request_for w c =
     \<lparr>req_base = serverApiUrl (state w), req_authorization = authHeader (state w), req_call = c\<rparr>"

definition fetch :: "env \<Rightarrow> call \<Rightarrow> world \<Rightarrow> fetch_result \<times> world" where
  "fetch E c w =
     (let rq = request_for w c
      in (remote E (length (requests w)) rq, w\<lparr>requests := requests w @ [rq]\<rparr>))"

definition notConnected :: fs_error where
  "notConnected = Unavailable ''No server API URL set, please init the extension first.''"

definition ensureConnected :: "world \<Rightarrow> bool" where
  "ensureConnected w = (serverApiUrl (state w) \<noteq> [])"

definition first_detail :: "error_entry list \<Rightarrow> string option" where
  "first_detail es = (case es of [] \<Rightarrow> None | e # _ \<Rightarrow> err_detail e)"

definition first_code :: "error_entry list \<Rightarrow> string option" where
  "first_code es = (case es of [] \<Rightarrow> None | e # _ \<Rightarrow> err_code e)"

subsection \<open>forConnection: the status-mapping rule\<close>

definition forConnection :: "env \<Rightarrow> response \<Rightarrow> world \<Rightarrow> unit outcome" where
  "forConnection E r w =
     (if status r = 401 then
        (let message = warningChoice E (warningsShown w);
             w1 = w\<lparr>warningsShown := Suc (warningsShown w)\<rparr>;
             w2 = (if message = Some ''Authenticate'' then onAuthenticationFailed w1 else w1)
         in (Inl (NoPermissions (url r)), w2))
      else if status r = 403 then (Inl (NoPermissions (url r)), w)
      else if status r = 404 then (Inl (FileNotFound (url r)), w)
      else if status r = 422 then
        (case body_json r of
           None \<Rightarrow> (Inl (Js_error ''SyntaxError''), w)
         | Some json \<Rightarrow>
             (case json_errors json of
                None \<Rightarrow> (Inl (Js_error ''TypeError''), w)
              | Some es \<Rightarrow>
                  (Inl (Unavailable (case first_detail es of
                                       None \<Rightarrow> ''Request could not be completed.''
                                     | Some d \<Rightarrow> d)), w)))
      else if status r = 429 then
        (Inl (Unavailable ''You have been ratelimited by the Pterodactyl panel.''), w)
      else if status r = 500 then
        (Inl (Unavailable ''The server (or a proxy) was unable to handle the request. Check Output -> Pterodactyl for more information.''), w)
      else if \<not> response_ok r then
        (Inl (Unavailable (''Unknown error: '' @ show_nat (status r) @ '' '' @ statusText r)), w)
      else (Inr (), w))"

text \<open>How often the callback has run once a 401 has been handled in state \<open>w\<close>: once more
  than before if the user picks \<open>Authenticate\<close> in the warning shown then, unchanged otherwise.\<close>

definition authFailedCalls_after_401 :: "env \<Rightarrow> world \<Rightarrow> nat" where
  "authFailedCalls_after_401 E w =
     authFailedCalls w + (if warningChoice E (warningsShown w) = Some ''Authenticate'' then 1 else 0)"

subsection \<open>readDirectory, delete, createDirectory, rename\<close>

definition getFileType :: "bool \<Rightarrow> bool \<Rightarrow> nat" where
  "getFileType isFile isSymlink =
     (if isFile \<and> isSymlink then FileType_File OR FileType_SymbolicLink
      else if isFile then FileType_File
      else if isSymlink then FileType_Directory OR FileType_SymbolicLink
      else FileType_Directory)"

definition directoryEntry :: "file_attributes \<Rightarrow> string \<times> nat" where
  "directoryEntry attributes =
     (fa_name attributes,
      (if is_file attributes \<and> is_symlink attributes then FileType_File OR FileType_SymbolicLink
       else if is_file attributes then FileType_File
       else if is_symlink attributes then FileType_Directory OR FileType_SymbolicLink
       else FileType_Directory))"

definition readDirectory :: "env \<Rightarrow> uri \<Rightarrow> world \<Rightarrow> (string \<times> nat) list outcome" where
  "readDirectory E u w =
     (if \<not> ensureConnected w then (Inl notConnected, w)
      else
        (case fetch E (List_directory (uri_path u)) w of
           (Fetch_rejected m, w1) \<Rightarrow> (Inl (Js_error m), w1)
         | (Fetch_response r, w1) \<Rightarrow>
             (case forConnection E r w1 of
                (Inl e, w2) \<Rightarrow> (Inl e, w2)
              | (Inr _, w2) \<Rightarrow>
                  (case body_json r of
                     None \<Rightarrow> (Inl (Js_error ''SyntaxError''), w2)
                   | Some json \<Rightarrow>
                       (case json_data json of
                          None \<Rightarrow> (Inl (Js_error ''TypeError''), w2)
                        | Some files \<Rightarrow> (Inr (map directoryEntry files), w2))))))"

text \<open>A call that sends one request and funnels the response through \<open>forConnection\<close>.\<close>

definition send :: "env \<Rightarrow> call \<Rightarrow> world \<Rightarrow> unit outcome" where
  "send E c w =
     (case fetch E c w of
        (Fetch_rejected m, w1) \<Rightarrow> (Inl (Js_error m), w1)
      | (Fetch_response r, w1) \<Rightarrow> forConnection E r w1)"

definition delete :: "env \<Rightarrow> uri \<Rightarrow> bool \<Rightarrow> world \<Rightarrow> unit outcome" where
  "delete E u recursive w =
     (if \<not> ensureConnected w then (Inl notConnected, w)
      else
        (let (items, w1) =
               (if \<not> recursive then
                  (case readDirectory E u w of
                     (Inl e, w') \<Rightarrow> ([], w')
                   | (Inr listed, w') \<Rightarrow> (listed, w'))
                else ([], w))
         in if \<not> recursive \<and> length items > 0 then (Inl (Unavailable ''Directory not empty''), w1)
            else send E (Post_delete (removeStartSlash (uri_path u))) w1))"

definition createDirectory :: "env \<Rightarrow> uri \<Rightarrow> world \<Rightarrow> unit outcome" where
  "createDirectory E u w =
     (if \<not> ensureConnected w then (Inl notConnected, w)
      else send E (Post_create_folder (uri_path u)) w)"

definition rename :: "env \<Rightarrow> uri \<Rightarrow> uri \<Rightarrow> bool \<Rightarrow> world \<Rightarrow> unit outcome" where
  "rename E oldUri newUri overwrite w =
     (if \<not> ensureConnected w then (Inl notConnected, w)
      else
        (let w1 = (if overwrite then snd (delete E newUri True w) else w)
         in send E (Put_rename (removeStartSlash (uri_path oldUri)) (removeStartSlash (uri_path newUri))) w1))"

subsection \<open>copy\<close>

definition copy :: "env \<Rightarrow> uri \<Rightarrow> uri \<Rightarrow> bool \<Rightarrow> world \<Rightarrow> unit outcome" where
  "copy E source destination overwrite w =
     (if \<not> ensureConnected w then (Inl notConnected, w)
      else
        (let w1 = (if overwrite then snd (delete E destination True w) else w)
         in (case send E (Post_copy (uri_path source)) w1 of
               (Inl e, w2) \<Rightarrow> (Inl e, w2)
             | (Inr _, w2) \<Rightarrow>
                 (let oldPath = parentPath (uri_path source);
                      newPath = parentPath (uri_path destination)
                  in if oldPath = newPath then (Inr (), w2)
                     else send E (Put_rename
                            (removeStartSlash (oldPath @ ''/'' @ copiedLocation (uri_path source)))
                            (removeStartSlash (newPath @ ''/'' @
                               js_template (js_pop (js_split CHR ''/'' (uri_path destination)))))) w2))))"

subsection \<open>readFile: three attempts with backoff\<close>

definition maxRetries :: nat where
  "maxRetries = 3"

definition readFile_attempt :: "env \<Rightarrow> uri \<Rightarrow> nat \<Rightarrow> world \<Rightarrow> string outcome" where
  "readFile_attempt E u attempt w =
     (case fetch E (Get_contents (uri_path u)) w of
        (Fetch_rejected m, w1) \<Rightarrow> (Inl (Js_error m), w1)
      | (Fetch_response r, w1) \<Rightarrow>
          (case forConnection E r w1 of
             (Inl e, w2) \<Rightarrow> (Inl e, w2)
           | (Inr _, w2) \<Rightarrow> (Inr (body_bytes r), w2)))"

function readFile_loop :: "env \<Rightarrow> uri \<Rightarrow> nat \<Rightarrow> fs_error \<Rightarrow> world \<Rightarrow> string outcome" where
  "readFile_loop E u attempt lastError w =
     (if attempt \<le> maxRetries then
        (case readFile_attempt E u attempt w of
           (Inr bytes, w1) \<Rightarrow> (Inr bytes, w1)
         | (Inl error, w1) \<Rightarrow>
             readFile_loop E u (attempt + 1) error
               (if attempt < maxRetries then sleep (2 ^ attempt * 100) w1 else w1))
      else (Inl lastError, w))"
  by pat_completeness auto
termination
  by (relation "measure (\<lambda>(E, u, attempt, lastError, w). Suc maxRetries - attempt)") auto

declare readFile_loop.simps [simp del]

definition readFile :: "env \<Rightarrow> uri \<Rightarrow> world \<Rightarrow> string outcome" where
  "readFile E u w =
     (if \<not> ensureConnected w then (Inl notConnected, w)
      else readFile_loop E u 1 (Js_error ''undefined'') w)"

subsection \<open>stat and its ten-second cache\<close>

definition rootStat :: file_stat where
  "rootStat = \<lparr>st_ctime = 0, st_mtime = 0, st_permissions = None, st_size = 0,
               st_type = FileType_Directory\<rparr>"

definition toFileStat :: "env \<Rightarrow> file_attributes \<Rightarrow> file_stat" where
  "toFileStat E file =
     \<lparr>st_ctime = getTime E (created_at file),
      st_mtime = getTime E (modified_at file),
      st_permissions = (if 2 < length (fa_mode file) \<and> fa_mode file ! 2 = CHR ''w'' then None
                        else Some FilePermission_Readonly),
      st_size = fa_size file,
      st_type = getFileType (is_file file) (is_symlink file)\<rparr>"

definition statKey :: "uri \<Rightarrow> string" where
  "statKey u = ''stat:'' @ uri_toString u"

text \<open>
  \<open>stat\<close> suspends once, at \<open>await fetch\<close>: \<open>stat_begin\<close> is the call up to there (it ends
  the call at once when the provider is not connected, on a cache hit and for the root, and
  otherwise issues the listing request), \<open>stat_resume\<close> is the rest, run on the state found
  when the answer arrives. Other calls may run in between; \<open>stat\<close> is the call with nothing
  in between.
\<close>

definition stat_begin :: "env \<Rightarrow> uri \<Rightarrow> world \<Rightarrow> file_stat outcome + fetch_result \<times> world" where
  "stat_begin E u w =
     (if \<not> ensureConnected w then Inl (Inl notConnected, w)
      else
        (case responseCache w (statKey u) of
           Some cached \<Rightarrow>
             Inl (Inr cached,
                  w\<lparr>responseCacheHits := (responseCacheHits w)(statKey u \<mapsto>
                       (case responseCacheHits w (statKey u) of None \<Rightarrow> 0 | Some h \<Rightarrow> h) + 1)\<rparr>)
         | None \<Rightarrow>
             (if uri_path u = ''/'' then Inl (Inr rootStat, w)
              else Inr (fetch E (List_directory (parentPath (uri_path u))) w))))"

definition stat_resume :: "env \<Rightarrow> uri \<Rightarrow> fetch_result \<Rightarrow> world \<Rightarrow> file_stat outcome" where
  "stat_resume E u answer w1 =
     (case answer of
        Fetch_rejected m \<Rightarrow> (Inl (Js_error m), w1)
      | Fetch_response r \<Rightarrow>
          (case forConnection E r w1 of
             (Inl e, w2) \<Rightarrow> (Inl e, w2)
           | (Inr _, w2) \<Rightarrow>
               (case body_json r of
                  None \<Rightarrow> (Inl (Js_error ''SyntaxError''), w2)
                | Some json \<Rightarrow>
                    (if \<not> response_ok r then
                       (case json_errors json of
                          None \<Rightarrow> (Inl (Js_error ''TypeError''), w2)
                        | Some es \<Rightarrow>
                            (if first_code es = Some ''DaemonConnectionException''
                             then (Inl (FileNotFound (uri_toString u)), w2)
                             else (Inl (Unavailable (case first_detail es of
                                                       None \<Rightarrow> ''Stat request failed''
                                                     | Some d \<Rightarrow> d)), w2)))
                     else
                       (case json_data json of
                          None \<Rightarrow> (Inl (Js_error ''TypeError''), w2)
                        | Some entries \<Rightarrow>
                            (case find (\<lambda>entry. Some (fa_name entry) =
                                          js_pop (js_split CHR ''/'' (uri_path u))) entries of
                               None \<Rightarrow> (Inl (FileNotFound (uri_toString u)), w2)
                             | Some file \<Rightarrow>
                                 (Inr (toFileStat E file),
                                  w2\<lparr>responseCache := (responseCache w2)(statKey u \<mapsto> toFileStat E file),
                                     responseCacheHits := (responseCacheHits w2)(statKey u \<mapsto> 0),
                                     evictionTimers := evictionTimers w2 @ [(clock w2 + 10000, statKey u)]\<rparr>)))))))"

definition stat :: "env \<Rightarrow> uri \<Rightarrow> world \<Rightarrow> file_stat outcome" where
  "stat E u w =
     (case stat_begin E u w of
        Inl finished \<Rightarrow> finished
      | Inr (answer, w1) \<Rightarrow> stat_resume E u answer w1)"

subsection \<open>writeFile\<close>

text \<open>
  The \<open>try\<close> block of \<open>writeFile\<close>: what it throws (or that it completes), the value of
  \<open>fileExists\<close> when it ends, and the state. The \<open>catch\<close> clause that follows binds no
  variable: whatever was thrown is dropped there.
\<close>

definition writeFile_try :: "env \<Rightarrow> uri \<Rightarrow> bool \<Rightarrow> world \<Rightarrow> (fs_error + unit) \<times> bool \<times> world" where
  "writeFile_try E u overwrite w =
     (case stat E u w of
        (Inl e, w1) \<Rightarrow> (Inl e, False, w1)
      | (Inr fileStat, w1) \<Rightarrow>
          (if st_type fileStat = FileType_Directory then (Inl (FileIsADirectory (uri_toString u)), True, w1)
           else if \<not> overwrite then (Inl (FileExists (uri_toString u)), True, w1)
           else (Inr (), True, w1)))"

definition writeFile_upload :: "env \<Rightarrow> uri \<Rightarrow> string \<Rightarrow> bool \<Rightarrow> bool \<Rightarrow> world \<Rightarrow> unit outcome" where
  "writeFile_upload E u content create fileExists w =
     (let w1 = (if \<not> fileExists \<and> create then snd (fetch E (Post_write (uri_path u) []) w) else w)
      in send E (Post_write (uri_path u) content) w1)"

definition writeFile :: "env \<Rightarrow> uri \<Rightarrow> string \<Rightarrow> bool \<Rightarrow> bool \<Rightarrow> world \<Rightarrow> unit outcome" where
  "writeFile E u content create overwrite w =
     (if \<not> ensureConnected w then (Inl notConnected, w)
      else
        (case writeFile_try E u overwrite w of
           (Inl thrown, fileExists, w1) \<Rightarrow>
             (if \<not> create then (Inl (FileNotFound (uri_toString u)), w1)
              else writeFile_upload E u content create fileExists w1)
         | (Inr _, fileExists, w1) \<Rightarrow> writeFile_upload E u content create fileExists w1))"

section \<open>The tree view (class PterodactylTreeDataProvider)\<close>

subsection \<open>Tree items and their order\<close>

datatype collapsible = Collapsible_None | Collapsed

record tree_item =
  label :: string
  collapsibleState :: collapsible
  item_uri :: uri
  isFile :: bool

text \<open>
  \<open>vscode.Uri.joinPath\<close> belongs to the host; here it appends the name as one more path
  segment (no dot-segment normalisation, no percent-encoding).
\<close>

definition joinPath :: "uri \<Rightarrow> string \<Rightarrow> uri" where
  "joinPath base name =
     (let sep = (\<lambda>p. if p \<noteq> [] \<and> last p = CHR ''/'' then [] else ''/'')
      in \<lparr>uri_path = uri_path base @ sep (uri_path base) @ name,
          uri_toString = uri_toString base @ sep (uri_toString base) @ name\<rparr>)"

definition toTreeItem :: "uri \<Rightarrow> string \<Rightarrow> nat \<Rightarrow> tree_item" where
  "toTreeItem directoryUri name type =
     (let isFile = ((type AND FileType_File) \<noteq> 0)
      in \<lparr>label = name,
          collapsibleState = (if isFile then Collapsible_None else Collapsed),
          item_uri = joinPath directoryUri name,
          isFile = isFile\<rparr>)"

text \<open>
  The comparator handed to \<open>treeItems.sort\<close>. \<open>String.prototype.localeCompare\<close> is the
  host's collation; it is the parameter \<open>localeCompare\<close> here.
\<close>

definition compareItems :: "(string \<Rightarrow> string \<Rightarrow> int) \<Rightarrow> tree_item \<Rightarrow> tree_item \<Rightarrow> int" where
  "compareItems localeCompare left right =
     (if isFile left \<noteq> isFile right then (if isFile left then 1 else - 1)
      else localeCompare (label left) (label right))"

text \<open>
  \<open>Array.prototype.sort\<close> is stable and, for a comparator that is a consistent total
  preorder, yields the one stable sorted arrangement; insertion from the right computes it.
\<close>

fun insert_sorted :: "('a \<Rightarrow> 'a \<Rightarrow> int) \<Rightarrow> 'a \<Rightarrow> 'a list \<Rightarrow> 'a list" where
  "insert_sorted compareFn x [] = [x]"
| "insert_sorted compareFn x (y # ys) =
     (if compareFn x y \<le> 0 then x # y # ys else y # insert_sorted compareFn x ys)"

definition js_sort :: "('a \<Rightarrow> 'a \<Rightarrow> int) \<Rightarrow> 'a list \<Rightarrow> 'a list" where
  "js_sort compareFn xs = foldr (insert_sorted compareFn) xs []"

definition sortedTreeItems ::
  "(string \<Rightarrow> string \<Rightarrow> int) \<Rightarrow> uri \<Rightarrow> (string \<times> nat) list \<Rightarrow> tree_item list" where
  "sortedTreeItems localeCompare directoryUri items =
     js_sort (compareItems localeCompare) (map (\<lambda>(name, type). toTreeItem directoryUri name type) items)"

text \<open>A comparator is consistent when \<open>\<le> 0\<close> under it is total and transitive.\<close>

definition consistent_comparator :: "('a \<Rightarrow> 'a \<Rightarrow> int) \<Rightarrow> bool" where
  "consistent_comparator compareFn =
     ((\<forall>a b. compareFn a b \<le> 0 \<or> compareFn b a \<le> 0)
      \<and> (\<forall>a b c. compareFn a b \<le> 0 \<longrightarrow> compareFn b c \<le> 0 \<longrightarrow> compareFn a c \<le> 0))"

definition directories_first :: "tree_item list \<Rightarrow> bool" where
  "directories_first xs = (xs = filter (\<lambda>i. \<not> isFile i) xs @ filter isFile xs)"

definition labels_ascending :: "(string \<Rightarrow> string \<Rightarrow> int) \<Rightarrow> tree_item list \<Rightarrow> bool" where
  "labels_ascending localeCompare xs =
     sorted_wrt (\<lambda>a b. localeCompare (label a) (label b) \<le> 0) xs"

subsection \<open>The provider's maps and the work in flight\<close>

text \<open>
  The five \<open>Map\<close>s are association lists in insertion order. Promises and timer handles are
  numbers drawn from \<open>nextHandle\<close>. \<open>pendingLoads\<close> are the \<open>readDirectory\<close> calls that have
  not settled yet (promise, directory, element); \<open>pendingTimeouts\<close> are the \<open>setTimeout\<close>
  callbacks that have neither run nor been cleared (handle, directory key, element);
  \<open>fired\<close> are the change notifications (\<open>None\<close> is \<open>undefined\<close>, the whole tree).
\<close>

record tree_state =
  allItemsByDirectory :: "(string \<times> tree_item list) list"
  visibleItemsByDirectory :: "(string \<times> tree_item list) list"
  loadInFlightByDirectory :: "(string \<times> nat) list"
  refreshTargetByDirectory :: "(string \<times> tree_item option) list"
  revealTimersByDirectory :: "(string \<times> nat) list"
  pendingLoads :: "(nat \<times> uri \<times> tree_item option) list"
  pendingTimeouts :: "(nat \<times> string \<times> tree_item option) list"
  fired :: "tree_item option list"
  nextHandle :: nat

definition initial_tree :: tree_state where
  "initial_tree =
     \<lparr>allItemsByDirectory = [], visibleItemsByDirectory = [], loadInFlightByDirectory = [],
      refreshTargetByDirectory = [], revealTimersByDirectory = [], pendingLoads = [],
      pendingTimeouts = [], fired = [], nextHandle = 0\<rparr>"

definition rootUri :: uri where
  "rootUri = \<lparr>uri_path = ''/'', uri_toString = ''pterodactyl:/''\<rparr>"

definition revealNextItems :: "string \<Rightarrow> tree_item option \<Rightarrow> tree_state \<Rightarrow> tree_state" where
  "revealNextItems directoryKey element s =
     (case map_of (allItemsByDirectory s) directoryKey of
        None \<Rightarrow> s
      | Some allItems \<Rightarrow>
          (case map_of (visibleItemsByDirectory s) directoryKey of
             None \<Rightarrow> s
           | Some visibleItems \<Rightarrow>
               (if length visibleItems \<ge> length allItems then
                  s\<lparr>revealTimersByDirectory := AList.delete directoryKey (revealTimersByDirectory s)\<rparr>
                else
                  (let target = (case map_of (refreshTargetByDirectory s) directoryKey of
                                   Some (Some t) \<Rightarrow> Some t
                                 | _ \<Rightarrow> element)
                   in s\<lparr>visibleItemsByDirectory :=
                          AList.update directoryKey (take (length visibleItems + 1) allItems)
                            (visibleItemsByDirectory s),
                        fired := fired s @ [target],
                        pendingTimeouts := pendingTimeouts s @ [(nextHandle s, directoryKey, element)],
                        revealTimersByDirectory :=
                          AList.update directoryKey (nextHandle s) (revealTimersByDirectory s),
                        nextHandle := Suc (nextHandle s)\<rparr>))))"

text \<open>
  \<open>startAnimatedLoad\<close> up to its first suspension: either it finds a promise for the
  directory and only waits for it, or it calls \<open>readDirectory\<close> and records the new promise.
\<close>

definition startAnimatedLoad :: "uri \<Rightarrow> tree_item option \<Rightarrow> tree_state \<Rightarrow> tree_state" where
  "startAnimatedLoad directoryUri element s =
     (let directoryKey = uri_toString directoryUri
      in (case map_of (loadInFlightByDirectory s) directoryKey of
            Some inFlight \<Rightarrow> s
          | None \<Rightarrow>
              s\<lparr>pendingLoads := pendingLoads s @ [(nextHandle s, directoryUri, element)],
                loadInFlightByDirectory :=
                  AList.update directoryKey (nextHandle s) (loadInFlightByDirectory s),
                nextHandle := Suc (nextHandle s)\<rparr>))"

definition getChildren :: "tree_item option \<Rightarrow> tree_state \<Rightarrow> tree_item list \<times> tree_state" where
  "getChildren element s =
     (let directoryUri = (case element of Some e \<Rightarrow> item_uri e | None \<Rightarrow> rootUri);
          directoryKey = uri_toString directoryUri;
          s1 = s\<lparr>refreshTargetByDirectory :=
                   AList.update directoryKey element (refreshTargetByDirectory s)\<rparr>
      in (case map_of (visibleItemsByDirectory s1) directoryKey of
            Some visibleItems \<Rightarrow> (visibleItems, s1)
          | None \<Rightarrow> ([], startAnimatedLoad directoryUri element s1)))"

definition refresh :: "tree_state \<Rightarrow> tree_state" where
  "refresh s =
     s\<lparr>pendingTimeouts :=
         filter (\<lambda>(handle, k, e). handle \<notin> set (map snd (revealTimersByDirectory s))) (pendingTimeouts s),
       revealTimersByDirectory := [],
       allItemsByDirectory := [],
       visibleItemsByDirectory := [],
       loadInFlightByDirectory := [],
       refreshTargetByDirectory := [],
       fired := fired s @ [None]\<rparr>"

text \<open>
  The rest of a load, run when its \<open>readDirectory\<close> promise settles: the body of the
  \<open>try\<close> or of the \<open>catch\<close>, then the \<open>finally\<close> callback that deletes the directory's entry
  of \<open>loadInFlightByDirectory\<close>.
\<close>

definition loadSettled ::
  "(string \<Rightarrow> string \<Rightarrow> int) \<Rightarrow> nat \<Rightarrow> fs_error + (string \<times> nat) list \<Rightarrow> tree_state \<Rightarrow> tree_state" where
  "loadSettled localeCompare promise result s =
     (case find (\<lambda>(p, d, e). p = promise) (pendingLoads s) of
        None \<Rightarrow> s
      | Some (p, directoryUri, element) \<Rightarrow>
          (let directoryKey = uri_toString directoryUri;
               s1 = s\<lparr>pendingLoads := filter (\<lambda>(p, d, e). p \<noteq> promise) (pendingLoads s)\<rparr>;
               s2 = (case result of
                       Inr items \<Rightarrow>
                         revealNextItems directoryKey element
                           (s1\<lparr>allItemsByDirectory :=
                                 AList.update directoryKey
                                   (sortedTreeItems localeCompare directoryUri items)
                                   (allItemsByDirectory s1),
                               visibleItemsByDirectory :=
                                 AList.update directoryKey [] (visibleItemsByDirectory s1)\<rparr>)
                     | Inl error \<Rightarrow>
                         s1\<lparr>visibleItemsByDirectory :=
                               AList.update directoryKey [] (visibleItemsByDirectory s1),
                            fired := fired s1 @ [element]\<rparr>)
           in s2\<lparr>loadInFlightByDirectory := AList.delete directoryKey (loadInFlightByDirectory s2)\<rparr>))"

definition timeoutFired :: "nat \<Rightarrow> tree_state \<Rightarrow> tree_state" where
  "timeoutFired handle s =
     (case find (\<lambda>(h, k, e). h = handle) (pendingTimeouts s) of
        None \<Rightarrow> s
      | Some (h, directoryKey, element) \<Rightarrow>
          revealNextItems directoryKey element
            (s\<lparr>pendingTimeouts := filter (\<lambda>(h, k, e). h \<noteq> handle) (pendingTimeouts s)\<rparr>))"

datatype tree_event =
    GetChildren "tree_item option"
  | Refresh
  | LoadSettled nat "fs_error + (string \<times> nat) list"
  | TimeoutFired nat

fun tree_step :: "(string \<Rightarrow> string \<Rightarrow> int) \<Rightarrow> tree_state \<Rightarrow> tree_event \<Rightarrow> tree_state" where
  "tree_step localeCompare s (GetChildren element) = snd (getChildren element s)"
| "tree_step localeCompare s Refresh = refresh s"
| "tree_step localeCompare s (LoadSettled promise result) = loadSettled localeCompare promise result s"
| "tree_step localeCompare s (TimeoutFired handle) = timeoutFired handle s"

definition tree_run :: "(string \<Rightarrow> string \<Rightarrow> int) \<Rightarrow> tree_event list \<Rightarrow> tree_state" where
  "tree_run localeCompare evs = foldl (tree_step localeCompare) initial_tree evs"

text \<open>The listing requests of a directory that are outstanding in a state.\<close>

definition outstandingLoads :: "string \<Rightarrow> tree_state \<Rightarrow> nat" where
  "outstandingLoads directoryKey s =
     length (filter (\<lambda>(p, d, e). uri_toString d = directoryKey) (pendingLoads s))"

text \<open>What holds of the loads between two calls of \<open>refresh\<close>: every outstanding load is the
  one recorded for its directory, and promises are not reused.\<close>

definition loads_recorded :: "tree_state \<Rightarrow> bool" where
  "loads_recorded s =
     (list_all (\<lambda>(p, d, e). map_of (loadInFlightByDirectory s) (uri_toString d) = Some p
                            \<and> p < nextHandle s) (pendingLoads s)
      \<and> distinct (map fst (pendingLoads s)))"

text \<open>
  A run that also remembers the handle counter at the last call of \<open>refresh\<close> (0 before
  the first): the loads started since then are those whose promise is not below it.
\<close>

fun tree_track ::
  "(string \<Rightarrow> string \<Rightarrow> int) \<Rightarrow> tree_state \<times> nat \<Rightarrow> tree_event \<Rightarrow> tree_state \<times> nat" where
  "tree_track localeCompare (s, since) ev =
     (tree_step localeCompare s ev, if ev = Refresh then nextHandle s else since)"

definition tree_run_since :: "(string \<Rightarrow> string \<Rightarrow> int) \<Rightarrow> tree_event list \<Rightarrow> tree_state \<times> nat" where
  "tree_run_since localeCompare evs = foldl (tree_track localeCompare) (initial_tree, 0) evs"

text \<open>The outstanding listing requests of a directory that were started since the last
  \<open>refresh\<close>.\<close>

definition recentLoads :: "string \<Rightarrow> nat \<Rightarrow> tree_state \<Rightarrow> nat" where
  "recentLoads directoryKey since s =
     length (filter (\<lambda>(p, d, e). uri_toString d = directoryKey \<and> since \<le> p) (pendingLoads s))"

definition loadsSinceRefresh :: "(string \<Rightarrow> string \<Rightarrow> int) \<Rightarrow> string \<Rightarrow> tree_event list \<Rightarrow> nat" where
  "loadsSinceRefresh localeCompare directoryKey evs =
     recentLoads directoryKey (snd (tree_run_since localeCompare evs))
       (fst (tree_run_since localeCompare evs))"

text \<open>Every \<open>refresh\<close> of a run is called while no listing request is outstanding.\<close>

fun refreshes_idle_from :: "(string \<Rightarrow> string \<Rightarrow> int) \<Rightarrow> tree_state \<Rightarrow> tree_event list \<Rightarrow> bool" where
  "refreshes_idle_from localeCompare s [] = True"
| "refreshes_idle_from localeCompare s (ev # evs) =
     ((ev = Refresh \<longrightarrow> pendingLoads s = [])
      \<and> refreshes_idle_from localeCompare (tree_step localeCompare s ev) evs)"

definition refreshes_idle :: "(string \<Rightarrow> string \<Rightarrow> int) \<Rightarrow> tree_event list \<Rightarrow> bool" where
  "refreshes_idle localeCompare evs = refreshes_idle_from localeCompare initial_tree evs"

text \<open>
  What holds of the loads started since the last \<open>refresh\<close>: each is either the one recorded
  for its directory, or its directory already has a list of visible items (put there by a
  load that settled); no directory has two of them; promises are drawn once.
\<close>

definition recent_loads_ok :: "tree_state \<Rightarrow> nat \<Rightarrow> bool" where
  "recent_loads_ok s since =
     (list_all (\<lambda>(p, d, e). p < nextHandle s
                 \<and> (since \<le> p \<longrightarrow>
                       map_of (loadInFlightByDirectory s) (uri_toString d) = Some p
                       \<or> map_of (visibleItemsByDirectory s) (uri_toString d) \<noteq> None))
        (pendingLoads s)
      \<and> distinct (map fst (pendingLoads s))
      \<and> (\<forall>x \<in> set (pendingLoads s). \<forall>y \<in> set (pendingLoads s).
            since \<le> fst x \<and> since \<le> fst y
            \<and> uri_toString (fst (snd x)) = uri_toString (fst (snd y)) \<longrightarrow> fst x = fst y))"

section \<open>The status bar (class StatusBarController)\<close>

text \<open>
  The scheduling state of the controller: its two flags, the number of \<open>refresh()\<close> bodies
  started and still running, the clock in milliseconds, and the due times of the pending
  timeouts whose callback is \<open>requestRefresh\<close>. What \<open>refresh()\<close> renders is not
  represented.
\<close>

record status_state =
  refreshInFlight :: bool
  refreshQueued :: bool
  refreshesStarted :: nat
  refreshesRunning :: nat
  statusClock :: nat
  scheduledRefreshes :: "nat list"

definition initial_status :: status_state where
  "initial_status =
     \<lparr>refreshInFlight = False, refreshQueued = False, refreshesStarted = 0, refreshesRunning = 0,
      statusClock = 0, scheduledRefreshes = []\<rparr>"

definition requestRefresh :: "status_state \<Rightarrow> status_state" where
  "requestRefresh s =
     (if refreshInFlight s then s\<lparr>refreshQueued := True\<rparr>
      else s\<lparr>refreshInFlight := True,
             refreshesStarted := Suc (refreshesStarted s),
             refreshesRunning := Suc (refreshesRunning s)\<rparr>)"

text \<open>The \<open>finally\<close> callback, run when a running \<open>refresh()\<close> settles.\<close>

definition refreshSettled :: "status_state \<Rightarrow> status_state" where
  "refreshSettled s =
     (if refreshesRunning s = 0 then s
      else
        (let s1 = s\<lparr>refreshesRunning := refreshesRunning s - 1, refreshInFlight := False\<rparr>
         in if refreshQueued s1
            then s1\<lparr>refreshQueued := False,
                    scheduledRefreshes := scheduledRefreshes s1 @ [statusClock s1 + 250]\<rparr>
            else s1))"

definition timePasses :: "nat \<Rightarrow> status_state \<Rightarrow> status_state" where
  "timePasses ms s = s\<lparr>statusClock := statusClock s + ms\<rparr>"

text \<open>
  The host runs the \<open>i\<close>-th pending timeout, which it does only once its delay has passed:
  the callback \<open>() => { this.requestRefresh() }\<close> runs and the timeout is gone.
\<close>

definition timeoutElapsed :: "nat \<Rightarrow> status_state \<Rightarrow> status_state" where
  "timeoutElapsed i s =
     (if i < length (scheduledRefreshes s) \<and> scheduledRefreshes s ! i \<le> statusClock s
      then requestRefresh (s\<lparr>scheduledRefreshes := take i (scheduledRefreshes s) @ drop (Suc i) (scheduledRefreshes s)\<rparr>)
      else s)"

text \<open>\<open>sendPowerSignal\<close> on a 204 answer schedules a refresh 750 ms later.\<close>

definition powerSignalAccepted :: "status_state \<Rightarrow> status_state" where
  "powerSignalAccepted s = s\<lparr>scheduledRefreshes := scheduledRefreshes s @ [statusClock s + 750]\<rparr>"

datatype status_event =
    RequestRefresh
  | RefreshSettled
  | TimeoutElapsed nat
  | PowerSignalAccepted
  | TimePasses nat

fun status_step :: "status_state \<Rightarrow> status_event \<Rightarrow> status_state" where
  "status_step s RequestRefresh = requestRefresh s"
| "status_step s RefreshSettled = refreshSettled s"
| "status_step s (TimeoutElapsed i) = timeoutElapsed i s"
| "status_step s PowerSignalAccepted = powerSignalAccepted s"
| "status_step s (TimePasses ms) = timePasses ms s"

definition status_run :: "status_event list \<Rightarrow> status_state" where
  "status_run evs = foldl status_step initial_status evs"

text \<open>The flag \<open>refreshInFlight\<close> tells whether a refresh is running.\<close>

definition running_matches_flag :: "status_state \<Rightarrow> bool" where
  "running_matches_flag s = (refreshesRunning s = (if refreshInFlight s then 1 else 0))"

section \<open>Concrete panels and states used to evaluate the model\<close>

definition listing_response :: "file_attributes list \<Rightarrow> response" where
  "listing_response files =
     \<lparr>status = 200, statusText = ''OK'', url = ''https://voidium.uk/api/client/servers/a1b2c3/files/list'',
      body_bytes = [], body_json = Some \<lparr>json_data = Some files, json_errors = None\<rparr>\<rparr>"

definition plain_response :: "nat \<Rightarrow> string \<Rightarrow> string \<Rightarrow> response" where
  "plain_response code reason bytes =
     \<lparr>status = code, statusText = reason, url = ''https://voidium.uk/api/client/servers/a1b2c3/files'',
      body_bytes = bytes, body_json = None\<rparr>"

definition entry_docs :: file_attributes where
  "entry_docs = \<lparr>fa_name = ''docs'', is_file = False, is_symlink = False,
                  created_at = ''2024-01-01T00:00:00+00:00'', modified_at = ''2024-01-02T00:00:00+00:00'',
                  fa_mode = ''drwxr-xr-x'', fa_size = 4096\<rparr>"

definition entry_notes :: file_attributes where
  "entry_notes = \<lparr>fa_name = ''notes'', is_file = True, is_symlink = False,
                   created_at = ''2024-01-01T00:00:00+00:00'', modified_at = ''2024-01-02T00:00:00+00:00'',
                   fa_mode = ''-rw-r--r--'', fa_size = 12\<rparr>"

text \<open>A panel whose every listing holds the directory \<open>docs\<close> and the file \<open>notes\<close>, and
  that accepts every other call with 204.\<close>

definition panel_env :: env where
  "panel_env =
     \<lparr>remote = (\<lambda>n rq. case req_call rq of
                          List_directory p \<Rightarrow> Fetch_response (listing_response [entry_notes, entry_docs])
                        | Get_contents p \<Rightarrow> Fetch_response (plain_response 200 ''OK'' ''hello'')
                        | _ \<Rightarrow> Fetch_response (plain_response 204 ''No Content'' [])),
      warningChoice = (\<lambda>n. None),
      getTime = (\<lambda>s. 0)\<rparr>"

definition connected_state :: RuntimeState where
  "connected_state = connectRuntimeState createRuntimeState ''https://voidium.uk'' ''a1b2c3'' ''secret''"

definition connected_world :: world where
  "connected_world =
     \<lparr>state = connected_state, responseCache = Map.empty, responseCacheHits = Map.empty,
      requests = [], warningsShown = 0, authFailedCalls = 0, clock = 0, evictionTimers = [],
      sleeps = []\<rparr>"

definition uri_docs :: uri where
  "uri_docs = \<lparr>uri_path = ''/docs'', uri_toString = ''pterodactyl:/docs''\<rparr>"

definition uri_notes :: uri where
  "uri_notes = \<lparr>uri_path = ''/notes'', uri_toString = ''pterodactyl:/notes''\<rparr>"

definition uri_root :: uri where
  "uri_root = \<lparr>uri_path = ''/'', uri_toString = ''pterodactyl:/''\<rparr>"

definition uri_backup_notes :: uri where
  "uri_backup_notes = \<lparr>uri_path = ''/backup/notes'', uri_toString = ''pterodactyl:/backup/notes''\<rparr>"

text \<open>A panel that answers every request with 401; the user dismisses the warning.\<close>

definition unauthorized_env :: env where
  "unauthorized_env =
     \<lparr>remote = (\<lambda>n rq. Fetch_response (plain_response 401 ''Unauthorized'' [])),
      warningChoice = (\<lambda>n. None),
      getTime = (\<lambda>s. 0)\<rparr>"

text \<open>The same panel; the user picks \<open>Authenticate\<close> in every warning.\<close>

definition unauthorized_env_authenticate :: env where
  "unauthorized_env_authenticate =
     \<lparr>remote = (\<lambda>n rq. Fetch_response (plain_response 401 ''Unauthorized'' [])),
      warningChoice = (\<lambda>n. Some ''Authenticate''),
      getTime = (\<lambda>s. 0)\<rparr>"

text \<open>A panel whose first two answers are a transport failure and a 500, and that serves
  the content from the third request on.\<close>

definition flaky_env :: env where
  "flaky_env =
     \<lparr>remote = (\<lambda>n rq. if n = 0 then Fetch_rejected ''fetch failed''
                        else if n = 1 then Fetch_response (plain_response 500 ''Internal Server Error'' ''failure'')
                        else Fetch_response (plain_response 200 ''OK'' ''hello'')),
      warningChoice = (\<lambda>n. None),
      getTime = (\<lambda>s. 0)\<rparr>"

text \<open>A panel that lists \<open>notes\<close> and \<open>docs\<close> in every directory, except that it answers
  the second request it ever receives, if that is a listing, with 500.\<close>

definition listing_fails_second_env :: env where
  "listing_fails_second_env =
     \<lparr>remote = (\<lambda>n rq. case req_call rq of
                          List_directory p \<Rightarrow>
                            (if n = 1 then Fetch_response (plain_response 500 ''Internal Server Error'' ''failure'')
                             else Fetch_response (listing_response [entry_notes, entry_docs]))
                        | _ \<Rightarrow> Fetch_response (plain_response 204 ''No Content'' [])),
      warningChoice = (\<lambda>n. None),
      getTime = (\<lambda>s. 0)\<rparr>"



text \<open>A comparator for evaluation: ASCII letters compared without case, then by code.\<close>

definition lower_char :: "char \<Rightarrow> char" where
  "lower_char c =
     (case map_of (zip ''ABCDEFGHIJKLMNOPQRSTUVWXYZ'' ''abcdefghijklmnopqrstuvwxyz'') c of
        Some l \<Rightarrow> l
      | None \<Rightarrow> c)"

definition caseless_compare :: "string \<Rightarrow> string \<Rightarrow> int" where
  "caseless_compare a b =
     (if map lower_char a < map lower_char b then - 1
      else if map lower_char a = map lower_char b then 0
      else 1)"

section \<open>Facts about the helpers\<close>

lemma js_split_nonempty: "js_split c s \<noteq> []"
  by (induction s) (auto split: list.splits)

lemma js_split_absent: "c \<notin> set s \<Longrightarrow> js_split c s = [s]"
  by (induction s) auto

lemma buildServerApiUrl_nonempty: "buildServerApiUrl p s \<noteq> []"
  by (simp add: buildServerApiUrl_def)

lemma getPanelUrl_nonempty: "getPanelUrl \<noteq> []"
  by (simp add: getPanelUrl_def HARD_CODED_PANEL_URL_def)

lemma stat_unfold:
  "stat E u w =
     (if \<not> ensureConnected w then (Inl notConnected, w)
      else
        (case responseCache w (statKey u) of
           Some cached \<Rightarrow>
             (Inr cached,
              w\<lparr>responseCacheHits := (responseCacheHits w)(statKey u \<mapsto>
                   (case responseCacheHits w (statKey u) of None \<Rightarrow> 0 | Some h \<Rightarrow> h) + 1)\<rparr>)
         | None \<Rightarrow>
             (if uri_path u = ''/'' then (Inr rootStat, w)
              else
                (case fetch E (List_directory (parentPath (uri_path u))) w of
                   (Fetch_rejected m, w1) \<Rightarrow> (Inl (Js_error m), w1)
                 | (Fetch_response r, w1) \<Rightarrow>
                     (case forConnection E r w1 of
                        (Inl e, w2) \<Rightarrow> (Inl e, w2)
                      | (Inr _, w2) \<Rightarrow>
                          (case body_json r of
                             None \<Rightarrow> (Inl (Js_error ''SyntaxError''), w2)
                           | Some json \<Rightarrow>
                               (if \<not> response_ok r then
                                  (case json_errors json of
                                     None \<Rightarrow> (Inl (Js_error ''TypeError''), w2)
                                   | Some es \<Rightarrow>
                                       (if first_code es = Some ''DaemonConnectionException''
                                        then (Inl (FileNotFound (uri_toString u)), w2)
                                        else (Inl (Unavailable (case first_detail es of
                                                                  None \<Rightarrow> ''Stat request failed''
                                                                | Some d \<Rightarrow> d)), w2)))
                                else
                                  (case json_data json of
                                     None \<Rightarrow> (Inl (Js_error ''TypeError''), w2)
                                   | Some entries \<Rightarrow>
                                       (case find (\<lambda>entry. Some (fa_name entry) =
                                                     js_pop (js_split CHR ''/'' (uri_path u))) entries of
                                          None \<Rightarrow> (Inl (FileNotFound (uri_toString u)), w2)
                                        | Some file \<Rightarrow>
                                            (Inr (toFileStat E file),
                                             w2\<lparr>responseCache := (responseCache w2)(statKey u \<mapsto> toFileStat E file),
                                                responseCacheHits := (responseCacheHits w2)(statKey u \<mapsto> 0),
                                                evictionTimers := evictionTimers w2 @ [(clock w2 + 10000, statKey u)]\<rparr>))))))))))"
  by (cases "responseCache w (statKey u)";
      cases "fetch E (List_directory (parentPath (uri_path u))) w";
      simp add: stat_def stat_begin_def stat_resume_def split: fetch_result.splits)

lemmas example_defs =
  listing_response_def plain_response_def entry_docs_def entry_notes_def panel_env_def
  connected_state_def connected_world_def uri_docs_def uri_notes_def uri_root_def
  uri_backup_notes_def unauthorized_env_def unauthorized_env_authenticate_def flaky_env_def
  listing_fails_second_env_def
  connectRuntimeState_def createRuntimeState_def buildServerApiUrl_def

lemmas bridge_defs =
  ensureConnected_def request_for_def fetch_def send_def forConnection_def response_ok_def notConnected_def
  readDirectory_def directoryEntry_def delete_def createDirectory_def rename_def copy_def
  stat_unfold statKey_def toFileStat_def getFileType_def rootStat_def parentPath_def
  copiedLocation_def js_or_def js_pop_def js_template_def removeStartSlash_def
  writeFile_def writeFile_try_def writeFile_upload_def onAuthenticationFailed_def
  authFailedState_def FileType_File_def FileType_Directory_def FileType_SymbolicLink_def
  FilePermission_Readonly_def first_detail_def first_code_def

section \<open>Connection state: which mutations keep both fields in step\<close>

lemma hydrate_fresh:
  "both_or_neither (hydrateRuntimeState cfg createRuntimeState) =
     ((getServerId cfg = None) = (getApiKey cfg = None))"
  by (auto simp: both_or_neither_def hydrateRuntimeState_def createRuntimeState_def
      getPanelUrl_nonempty buildServerApiUrl_nonempty Let_def split: option.splits)

lemma config_change_both:
  "both_or_neither (onDidChangeConfiguration True True cfg st) =
     ((getServerId cfg = None) = (cfg_apiKey cfg = None \<or> cfg_apiKey cfg = Some []))"
  by (auto simp: both_or_neither_def onDidChangeConfiguration_def getPanelUrl_nonempty
      buildServerApiUrl_nonempty Let_def split: option.splits)

lemma run_events_snoc: "run_events (evs @ [ev]) = apply_event (run_events evs) ev"
  by (simp add: run_events_def)

text \<open>
  C9 (as stated, refuted). Hydrating a fresh state from a configuration that holds a server
  id but no API key gives a non-empty \<open>serverApiUrl\<close> with an empty \<open>authHeader\<close>.
\<close>

theorem connection_state_counterexample:
  "\<not> both_or_neither (run_events [Hydrate \<lparr>cfg_serverId = Some ''a1b2c3'', cfg_apiKey = None\<rparr>])"
  by (simp add: run_events_def both_or_neither_def hydrateRuntimeState_def createRuntimeState_def
      getPanelUrl_def HARD_CODED_PANEL_URL_def buildServerApiUrl_def getServerId_def
      getApiKey_def js_trim_def js_whitespace_def)

text \<open>
  C9 (amended). The state created at startup, every state right after a successful connect and
  every state right after a reset has both fields empty or both non-empty. Hydration and
  configuration changes set the two fields independently: after hydrating a fresh state the
  fields agree exactly when the configured server id and API key are both usable or both
  missing, after a configuration change that touches both they agree exactly when the server
  id is usable and the raw API key non-empty, or neither; an authentication failure and the
  clear-API-key command blank \<open>authHeader\<close> and leave \<open>serverApiUrl\<close> as it was.
\<close>

theorem connection_state_amended:
  "both_or_neither (run_events [])
   \<and> both_or_neither (run_events (evs @ [Connect panelUrl serverId apiKey]))
   \<and> both_or_neither (run_events (evs @ [Reset]))
   \<and> both_or_neither (run_events [Hydrate cfg]) = ((getServerId cfg = None) = (getApiKey cfg = None))
   \<and> both_or_neither (run_events (evs @ [ConfigChanged True True cfg])) =
       ((getServerId cfg = None) = (cfg_apiKey cfg = None \<or> cfg_apiKey cfg = Some []))
   \<and> authHeader (run_events (evs @ [AuthFailed])) = []
   \<and> serverApiUrl (run_events (evs @ [AuthFailed])) = serverApiUrl (run_events evs)
   \<and> authHeader (run_events (evs @ [ClearApiKey])) = []
   \<and> serverApiUrl (run_events (evs @ [ClearApiKey])) = serverApiUrl (run_events evs)"
proof -
  have fresh: "run_events [] = createRuntimeState"
    by (simp add: run_events_def)
  have hyd: "run_events [Hydrate cfg] = hydrateRuntimeState cfg createRuntimeState"
    by (simp add: run_events_def)
  show ?thesis
    unfolding run_events_snoc hyd fresh
    by (simp add: hydrate_fresh config_change_both)
      (simp add: both_or_neither_def createRuntimeState_def connectRuntimeState_def
        clearRuntimeState_def buildServerApiUrl_def authFailedState_def clearApiKeyCommand_def)
qed

theorem connection_state_amended_witness:
  "both_or_neither (run_events [Hydrate \<lparr>cfg_serverId = Some ''a1b2c3'', cfg_apiKey = Some ''secret''\<rparr>,
                                 Connect ''https://voidium.uk'' ''a1b2c3'' ''secret''])
   \<and> both_or_neither (run_events [Connect ''https://voidium.uk'' ''a1b2c3'' ''secret'', Reset])
   \<and> authHeader (run_events [Connect ''https://voidium.uk'' ''a1b2c3'' ''secret'', AuthFailed]) = []
   \<and> serverApiUrl (run_events [Connect ''https://voidium.uk'' ''a1b2c3'' ''secret'', AuthFailed])
       = ''https://voidium.uk/api/client/servers/a1b2c3/files''"
  using connection_state_amended
          [of "[Hydrate \<lparr>cfg_serverId = Some ''a1b2c3'', cfg_apiKey = Some ''secret''\<rparr>]"
              "''https://voidium.uk''" "''a1b2c3''" "''secret''"]
        connection_state_amended
          [of "[Connect ''https://voidium.uk'' ''a1b2c3'' ''secret'']"]
  by (simp add: run_events_def connectRuntimeState_def buildServerApiUrl_def)


section \<open>copy: the name of the duplicate\<close>


lemma copiedLocation_dotless:
  "CHR ''.'' \<notin> set (last (js_split CHR ''/'' p)) \<Longrightarrow>
     copiedLocation p = '' copy.'' @ last (js_split CHR ''/'' p)"
  by (simp add: copiedLocation_def js_pop_def js_split_nonempty js_split_absent js_template_def)

text \<open>
  C10. When the last segment of the source path holds no dot, the name computed for the
  duplicate is \<open>'' copy.''\<close> followed by the whole segment (the stem is empty); and when the
  copy call is accepted and source and destination lie in different directories, that name,
  under the source's directory, is the \<open>from\<close> of the rename request that follows.
\<close>

theorem copy_dotless_intermediate_name:
  assumes "CHR ''.'' \<notin> set (last (js_split CHR ''/'' (uri_path source)))"
  shows "copiedLocation (uri_path source) = '' copy.'' @ last (js_split CHR ''/'' (uri_path source))
    \<and> (ensureConnected w
        \<and> fst (send E (Post_copy (uri_path source)) w) = Inr ()
        \<and> parentPath (uri_path source) \<noteq> parentPath (uri_path destination)
       \<longrightarrow> map req_call (requests (snd (copy E source destination False w))) =
             map req_call (requests w) @
               [Post_copy (uri_path source),
                Put_rename
                  (removeStartSlash (parentPath (uri_path source) @ ''/'' @ '' copy.'' @
                     last (js_split CHR ''/'' (uri_path source))))
                  (removeStartSlash (parentPath (uri_path destination) @ ''/'' @
                     last (js_split CHR ''/'' (uri_path destination))))])"
proof -
  let ?from = "removeStartSlash (parentPath (uri_path source) @ ''/'' @ '' copy.'' @
                     last (js_split CHR ''/'' (uri_path source)))"
  let ?to = "removeStartSlash (parentPath (uri_path destination) @ ''/'' @
                     last (js_split CHR ''/'' (uri_path destination)))"
  have name: "copiedLocation (uri_path source) = '' copy.'' @ last (js_split CHR ''/'' (uri_path source))"
    using assms by (rule copiedLocation_dotless)
  have dest: "js_template (js_pop (js_split CHR ''/'' (uri_path destination))) =
      last (js_split CHR ''/'' (uri_path destination))"
    by (simp add: js_template_def js_pop_def js_split_nonempty)
  have reqs: "map req_call (requests (snd (send E c v))) = map req_call (requests v) @ [c]" for c v
    by (cases "remote E (length (requests v)) (request_for v c)")
      (simp_all add: send_def fetch_def request_for_def forConnection_def onAuthenticationFailed_def
        Let_def split: option.splits)
  have "map req_call (requests (snd (copy E source destination False w))) =
          map req_call (requests w) @ [Post_copy (uri_path source), Put_rename ?from ?to]"
    if conn: "ensureConnected w"
      and ok: "fst (send E (Post_copy (uri_path source)) w) = Inr ()"
      and diff: "parentPath (uri_path source) \<noteq> parentPath (uri_path destination)"
  proof -
    obtain w2 where w2: "send E (Post_copy (uri_path source)) w = (Inr (), w2)"
      using ok by (cases "send E (Post_copy (uri_path source)) w") auto
    have "copy E source destination False w = send E (Put_rename ?from ?to) w2"
      using conn diff by (simp add: copy_def w2 name dest)
    moreover have "map req_call (requests w2) = map req_call (requests w) @ [Post_copy (uri_path source)]"
      using reqs [of "Post_copy (uri_path source)" w] by (simp add: w2)
    ultimately show ?thesis
      by (simp add: reqs)
  qed
  with name show ?thesis
    by blast
qed

theorem copy_dotless_intermediate_name_witness:
  "copiedLocation ''/notes'' = '' copy.notes''
   \<and> map req_call (requests (snd (copy panel_env uri_notes uri_backup_notes False connected_world))) =
       [Post_copy ''/notes'', Put_rename ''/ copy.notes'' ''backup/notes'']"
proof -
  have dotless: "CHR ''.'' \<notin> set (last (js_split CHR ''/'' (uri_path uri_notes)))"
    by (simp add: uri_notes_def)
  have pre: "ensureConnected connected_world
      \<and> fst (send panel_env (Post_copy (uri_path uri_notes)) connected_world) = Inr ()
      \<and> parentPath (uri_path uri_notes) \<noteq> parentPath (uri_path uri_backup_notes)"
    by (simp add: bridge_defs example_defs)
  show ?thesis
    using copy_dotless_intermediate_name [OF dotless, of connected_world panel_env uri_backup_notes] pre
    by (simp add: uri_notes_def uri_backup_notes_def connected_world_def parentPath_def js_or_def
        removeStartSlash_def)
qed


section \<open>writeFile: what the probe's errors turn into\<close>

lemma forConnection_error_kind:
  "fst (forConnection E r w) \<noteq> Inl (FileIsADirectory x)"
  "fst (forConnection E r w) \<noteq> Inl (FileExists x)"
  by (auto simp: forConnection_def Let_def split: option.splits)

lemma send_error_kind:
  "fst (send E c w) \<noteq> Inl (FileIsADirectory x)"
  "fst (send E c w) \<noteq> Inl (FileExists x)"
  by (auto simp: send_def forConnection_error_kind split: fetch_result.splits prod.splits)

lemma writeFile_never_reports_directory_or_exists:
  "fst (writeFile E u content create overwrite w) \<noteq> Inl (FileIsADirectory x)"
  "fst (writeFile E u content create overwrite w) \<noteq> Inl (FileExists x)"
  by (auto simp: writeFile_def writeFile_upload_def notConnected_def send_error_kind Let_def
      split: prod.splits sum.splits)

lemma writeFile_missing_without_create:
  "ensureConnected w \<Longrightarrow> fst (stat E u w) = Inl e \<Longrightarrow>
     fst (writeFile E u content False overwrite w) = Inl (FileNotFound (uri_toString u))"
  by (auto simp: writeFile_def writeFile_try_def split: prod.splits sum.splits)


text \<open>
  C1 (the code at the failing input). \<open>/docs\<close> exists on the panel and is a directory. With
  \<open>create\<close> and \<open>overwrite\<close> set, \<open>writeFile\<close> does not fail: the \<open>FileIsADirectory\<close> error
  thrown inside the \<open>try\<close> block is dropped by the \<open>catch\<close> clause and the content is uploaded
  over the directory's path. With \<open>create\<close> unset the same call fails with \<open>FileNotFound\<close>, and
  so does a write to the existing file \<open>/notes\<close> with \<open>overwrite\<close> and \<open>create\<close> unset.
\<close>

theorem writeFile_on_directory_uploads:
  "fst (writeFile panel_env uri_docs ''hello'' True True connected_world) = Inr ()
   \<and> map req_call (requests (snd (writeFile panel_env uri_docs ''hello'' True True connected_world))) =
       [List_directory ''/'', Post_write ''/docs'' ''hello'']
   \<and> fst (writeFile panel_env uri_docs ''hello'' False True connected_world) =
       Inl (FileNotFound ''pterodactyl:/docs'')
   \<and> fst (writeFile panel_env uri_notes ''hello'' False False connected_world) =
       Inl (FileNotFound ''pterodactyl:/notes'')
   \<and> fst (writeFile panel_env uri_notes ''hello'' True False connected_world) = Inr ()"
  by (simp add: bridge_defs example_defs Let_def)

section \<open>What one request and one pass through forConnection change\<close>

lemma fetch_result: "fetch E c w = (remote E (length (requests w)) (request_for w c),
    w\<lparr>requests := requests w @ [request_for w c]\<rparr>)"
  by (simp add: fetch_def Let_def)

lemma forConnection_keeps:
  assumes "forConnection E r w = (res, w')"
  shows "requests w' = requests w" and "sleeps w' = sleeps w"
    and "serverApiUrl (state w') = serverApiUrl (state w)"
    and "responseCache w' = responseCache w" and "responseCacheHits w' = responseCacheHits w"
    and "evictionTimers w' = evictionTimers w" and "clock w' = clock w"
  using assms
  by (auto simp: forConnection_def onAuthenticationFailed_def authFailedState_def Let_def
      split: if_splits option.splits)

lemma readDirectory_requests:
  assumes "ensureConnected w" and "readDirectory E u w = (res, w')"
  shows "requests w' = requests w @ [request_for w (List_directory (uri_path u))]"
proof (cases "remote E (length (requests w)) (request_for w (List_directory (uri_path u)))")
  case (Fetch_rejected m)
  with assms show ?thesis
    by (auto simp: readDirectory_def fetch_result)
next
  case (Fetch_response r)
  obtain res1 w1 where fc: "forConnection E r (w\<lparr>requests := requests w @ [request_for w (List_directory (uri_path u))]\<rparr>) = (res1, w1)"
    by (cases "forConnection E r (w\<lparr>requests := requests w @ [request_for w (List_directory (uri_path u))]\<rparr>)")
  have "w' = w1"
    using assms Fetch_response fc
    by (auto simp: readDirectory_def fetch_result split: sum.splits option.splits)
  with forConnection_keeps(1) [OF fc] show ?thesis
    by simp
qed


section \<open>readFile: the retry loop unrolled\<close>

lemma fold_evict_keeps:
  "requests (fold (\<lambda>(at, k). evict k) due w) = requests w"
  "sleeps (fold (\<lambda>(at, k). evict k) due w) = sleeps w"
  "state (fold (\<lambda>(at, k). evict k) due w) = state w"
  by (induction due arbitrary: w; simp add: evict_def split: prod.splits)+

lemma sleep_keeps:
  "requests (sleep ms w) = requests w"
  "sleeps (sleep ms w) = sleeps w @ [ms]"
  "state (sleep ms w) = state w"
  by (simp_all add: sleep_def advance_def Let_def fold_evict_keeps)

lemma readFile_attempt_requests:
  "requests (snd (readFile_attempt E u n v)) = requests v @ [request_for v (Get_contents (uri_path u))]"
proof (cases "remote E (length (requests v)) (request_for v (Get_contents (uri_path u)))")
  case (Fetch_rejected m)
  then show ?thesis
    by (simp add: readFile_attempt_def fetch_result)
next
  case (Fetch_response r)
  let ?v1 = "v\<lparr>requests := requests v @ [request_for v (Get_contents (uri_path u))]\<rparr>"
  obtain res w1 where fc: "forConnection E r ?v1 = (res, w1)"
    by (cases "forConnection E r ?v1")
  from forConnection_keeps(1) [OF fc] Fetch_response fc show ?thesis
    by (cases res) (simp_all add: readFile_attempt_def fetch_result)
qed

lemma readFile_attempt_sleeps:
  "sleeps (snd (readFile_attempt E u n v)) = sleeps v"
proof (cases "remote E (length (requests v)) (request_for v (Get_contents (uri_path u)))")
  case (Fetch_rejected m)
  then show ?thesis
    by (simp add: readFile_attempt_def fetch_result)
next
  case (Fetch_response r)
  let ?v1 = "v\<lparr>requests := requests v @ [request_for v (Get_contents (uri_path u))]\<rparr>"
  obtain res w1 where fc: "forConnection E r ?v1 = (res, w1)"
    by (cases "forConnection E r ?v1")
  from forConnection_keeps(2) [OF fc] Fetch_response fc show ?thesis
    by (cases res) (simp_all add: readFile_attempt_def fetch_result)
qed

lemma forConnection_passes_iff:
  "(fst (forConnection E r w) = Inr ()) = response_ok r"
  by (auto simp: forConnection_def response_ok_def Let_def split: option.splits)

lemma readFile_attempt_succeeds_iff:
  "(fst (readFile_attempt E u n v) = Inr bytes) =
     (\<exists>r. remote E (length (requests v)) (request_for v (Get_contents (uri_path u))) = Fetch_response r
          \<and> response_ok r \<and> body_bytes r = bytes)"
proof (cases "remote E (length (requests v)) (request_for v (Get_contents (uri_path u)))")
  case (Fetch_rejected m)
  then show ?thesis
    by (simp add: readFile_attempt_def fetch_result)
next
  case (Fetch_response r)
  let ?v1 = "v\<lparr>requests := requests v @ [request_for v (Get_contents (uri_path u))]\<rparr>"
  obtain res w1 where fc: "forConnection E r ?v1 = (res, w1)"
    by (cases "forConnection E r ?v1")
  from forConnection_passes_iff [of E r ?v1] Fetch_response fc show ?thesis
    by (cases res) (auto simp: readFile_attempt_def fetch_result)
qed

lemma readFile_attempt_number:
  "readFile_attempt E u (Suc n) w = readFile_attempt E u 0 w"
  "readFile_attempt E u (numeral k) w = readFile_attempt E u 0 w"
  "readFile_attempt E u 1 w = readFile_attempt E u 0 w"
  by (simp_all add: readFile_attempt_def)

lemma readFile_loop_done: "readFile_loop E u (Suc (Suc (Suc (Suc 0)))) e w = (Inl e, w)"
  by (subst readFile_loop.simps) (simp add: maxRetries_def)

lemma readFile_loop_third:
  "readFile_loop E u (Suc (Suc (Suc 0))) e w = readFile_attempt E u 0 w"
  by (subst readFile_loop.simps)
    (simp add: maxRetries_def readFile_loop_done readFile_attempt_number
      split: prod.splits sum.splits)

lemma readFile_loop_second:
  "readFile_loop E u (Suc (Suc 0)) e w =
     (if isl (fst (readFile_attempt E u 0 w))
      then readFile_attempt E u 0 (sleep 400 (snd (readFile_attempt E u 0 w)))
      else readFile_attempt E u 0 w)"
  by (subst readFile_loop.simps)
    (simp add: maxRetries_def readFile_loop_third readFile_attempt_number
      split: prod.splits sum.splits)

lemma readFile_loop_first:
  "readFile_loop E u (Suc 0) e w =
     (if isl (fst (readFile_attempt E u 0 w))
      then readFile_loop E u (Suc (Suc 0)) (projl (fst (readFile_attempt E u 0 w)))
             (sleep 200 (snd (readFile_attempt E u 0 w)))
      else readFile_attempt E u 0 w)"
  by (subst readFile_loop.simps)
    (simp add: maxRetries_def readFile_attempt_number split: prod.splits sum.splits)

text \<open>
  C6. On a connected provider \<open>readFile\<close> is its first attempt if that succeeds; otherwise it
  sleeps 200 ms and is its second attempt if that succeeds; otherwise it sleeps 400 ms and is
  its third attempt, whose payload or error is the result. It issues one request per attempt
  made, at most three, and sleeps only between attempts. An attempt succeeds exactly when the
  panel answers with a 2xx response, and then yields that response's bytes.
\<close>

theorem readFile_three_attempts:
  assumes "ensureConnected w"
  shows
    "(let a1 = readFile_attempt E u 1 w;
          a2 = readFile_attempt E u 2 (sleep 200 (snd a1));
          a3 = readFile_attempt E u 3 (sleep 400 (snd a2))
      in readFile E u w = (if isl (fst a1) then (if isl (fst a2) then a3 else a2) else a1)
         \<and> length (requests (snd (readFile E u w))) =
             length (requests w) + (if isl (fst a1) then (if isl (fst a2) then 3 else 2) else 1)
         \<and> length (requests (snd (readFile E u w))) \<le> length (requests w) + 3
         \<and> sleeps (snd (readFile E u w)) =
             sleeps w @ (if isl (fst a1) then (if isl (fst a2) then [200, 400] else [200]) else []))
     \<and> (\<forall>n v bytes. (fst (readFile_attempt E u n v) = Inr bytes) =
           (\<exists>r. remote E (length (requests v)) (request_for v (Get_contents (uri_path u))) = Fetch_response r
                \<and> response_ok r \<and> body_bytes r = bytes))"
proof -
  have unrolled: "readFile E u w =
      (if isl (fst (readFile_attempt E u 0 w))
       then (if isl (fst (readFile_attempt E u 0 (sleep 200 (snd (readFile_attempt E u 0 w)))))
             then readFile_attempt E u 0 (sleep 400 (snd (readFile_attempt E u 0 (sleep 200 (snd (readFile_attempt E u 0 w))))))
             else readFile_attempt E u 0 (sleep 200 (snd (readFile_attempt E u 0 w))))
       else readFile_attempt E u 0 w)"
    using assms by (simp add: readFile_def readFile_loop_first readFile_loop_second)
  show ?thesis
    unfolding Let_def readFile_attempt_number unrolled
    by (simp add: readFile_attempt_requests readFile_attempt_sleeps sleep_keeps
        readFile_attempt_succeeds_iff)
qed

theorem readFile_three_attempts_witness:
  "fst (readFile flaky_env uri_notes connected_world) = Inr ''hello''
   \<and> length (requests (snd (readFile flaky_env uri_notes connected_world))) = 3
   \<and> sleeps (snd (readFile flaky_env uri_notes connected_world)) = [200, 400]"
proof -
  have conn: "ensureConnected connected_world"
    by (simp add: bridge_defs example_defs)
  show ?thesis
    using readFile_three_attempts [OF conn, of flaky_env uri_notes]
    by (simp add: Let_def readFile_attempt_def fetch_result request_for_def forConnection_def
        response_ok_def sleep_def advance_def flaky_env_def plain_response_def
        connected_world_def uri_notes_def)
qed

section \<open>HTTP 401: the warning, the callback and the error\<close>

lemma forConnection_unauthorized:
  "status r = 401 \<Longrightarrow>
     forConnection E r w =
       (Inl (NoPermissions (url r)),
        (if warningChoice E (warningsShown w) = Some ''Authenticate''
         then onAuthenticationFailed (w\<lparr>warningsShown := Suc (warningsShown w)\<rparr>)
         else w\<lparr>warningsShown := Suc (warningsShown w)\<rparr>))"
  by (simp add: forConnection_def Let_def)

lemma send_unauthorized:
  assumes "status r = 401"
    and "remote E (length (requests w)) (request_for w c) = Fetch_response r"
  shows "fst (send E c w) = Inl (NoPermissions (url r))"
    and "authFailedCalls (snd (send E c w)) =
           authFailedCalls w + (if warningChoice E (warningsShown w) = Some ''Authenticate'' then 1 else 0)"
    and "warningsShown (snd (send E c w)) = Suc (warningsShown w)"
  using assms
  by (simp_all add: send_def fetch_result forConnection_unauthorized onAuthenticationFailed_def)

text \<open>
  C2 (as stated, refuted). The panel answers 401. When the user dismisses the warning,
  \<open>readDirectory\<close> fails with \<open>NoPermissions\<close> and the callback has not run at all; when the
  user picks \<open>Authenticate\<close> each time, one \<open>readFile\<close> call, which repeats its request
  three times, runs the callback three times.
\<close>

theorem unauthorized_callback_counterexample:
  "fst (readDirectory unauthorized_env uri_docs connected_world) =
     Inl (NoPermissions ''https://voidium.uk/api/client/servers/a1b2c3/files'')
   \<and> authFailedCalls connected_world = 0
   \<and> authFailedCalls (snd (readDirectory unauthorized_env uri_docs connected_world)) = 0
   \<and> authFailedCalls (snd (readFile unauthorized_env_authenticate uri_notes connected_world)) = 3"
  by (simp add: readDirectory_def readFile_def readFile_loop_first readFile_loop_second
      readFile_attempt_def ensureConnected_def fetch_result forConnection_unauthorized
      onAuthenticationFailed_def authFailedState_def sleep_def advance_def Let_def example_defs)

text \<open>
  C2 (amended). A 401 response makes \<open>forConnection\<close> show one warning, run the
  authentication-failure callback once if the user picks \<open>Authenticate\<close> there and not at all
  otherwise, and fail with \<open>NoPermissions\<close> (never \<open>Unavailable\<close>). So on a connected
  provider \<open>readDirectory\<close>, \<open>createDirectory\<close>, \<open>delete\<close> (recursive), \<open>rename\<close> and \<open>copy\<close>
  (without overwrite) and a \<open>stat\<close> that misses the cache fail with \<open>NoPermissions\<close> when
  their request is answered 401, with that one conditional run of the callback.
\<close>

theorem unauthorized_response_amended:
  assumes "status r = 401"
  shows
    "fst (forConnection E r w) = Inl (NoPermissions (url r))
     \<and> warningsShown (snd (forConnection E r w)) = Suc (warningsShown w)
     \<and> authFailedCalls (snd (forConnection E r w)) = authFailedCalls_after_401 E w
     \<and> (ensureConnected w \<and>
          remote E (length (requests w)) (request_for w (List_directory (uri_path u))) = Fetch_response r
          \<longrightarrow> fst (readDirectory E u w) = Inl (NoPermissions (url r))
            \<and> authFailedCalls (snd (readDirectory E u w)) = authFailedCalls_after_401 E w)
     \<and> (ensureConnected w \<and>
          remote E (length (requests w)) (request_for w (Post_create_folder (uri_path u))) = Fetch_response r
          \<longrightarrow> fst (createDirectory E u w) = Inl (NoPermissions (url r))
            \<and> authFailedCalls (snd (createDirectory E u w)) = authFailedCalls_after_401 E w)
     \<and> (ensureConnected w \<and>
          remote E (length (requests w)) (request_for w (Post_delete (removeStartSlash (uri_path u)))) = Fetch_response r
          \<longrightarrow> fst (delete E u True w) = Inl (NoPermissions (url r))
            \<and> authFailedCalls (snd (delete E u True w)) = authFailedCalls_after_401 E w)
     \<and> (ensureConnected w \<and>
          remote E (length (requests w))
            (request_for w (Put_rename (removeStartSlash (uri_path u)) (removeStartSlash (uri_path u')))) = Fetch_response r
          \<longrightarrow> fst (rename E u u' False w) = Inl (NoPermissions (url r))
            \<and> authFailedCalls (snd (rename E u u' False w)) = authFailedCalls_after_401 E w)
     \<and> (ensureConnected w \<and>
          remote E (length (requests w)) (request_for w (Post_copy (uri_path u))) = Fetch_response r
          \<longrightarrow> fst (copy E u u' False w) = Inl (NoPermissions (url r))
            \<and> authFailedCalls (snd (copy E u u' False w)) = authFailedCalls_after_401 E w)
     \<and> (ensureConnected w \<and> responseCache w (statKey u) = None \<and> uri_path u \<noteq> ''/'' \<and>
          remote E (length (requests w)) (request_for w (List_directory (parentPath (uri_path u)))) = Fetch_response r
          \<longrightarrow> fst (stat E u w) = Inl (NoPermissions (url r))
            \<and> authFailedCalls (snd (stat E u w)) = authFailedCalls_after_401 E w)"
proof -
  note fc = forConnection_unauthorized [OF assms]
  have rule: "fst (forConnection E r w) = Inl (NoPermissions (url r))
      \<and> warningsShown (snd (forConnection E r w)) = Suc (warningsShown w)
      \<and> authFailedCalls (snd (forConnection E r w)) = authFailedCalls_after_401 E w"
    by (simp add: fc onAuthenticationFailed_def authFailedCalls_after_401_def)
  have sent: "fst (send E c w) = Inl (NoPermissions (url r))
      \<and> authFailedCalls (snd (send E c w)) = authFailedCalls_after_401 E w"
    if "remote E (length (requests w)) (request_for w c) = Fetch_response r" for c
    using send_unauthorized(1,2) [OF assms that] by (simp add: authFailedCalls_after_401_def)
  have listing: "fst (readDirectory E u w) = Inl (NoPermissions (url r))
      \<and> authFailedCalls (snd (readDirectory E u w)) = authFailedCalls_after_401 E w"
    if "ensureConnected w"
      and "remote E (length (requests w)) (request_for w (List_directory (uri_path u))) = Fetch_response r"
    using that
    by (simp add: readDirectory_def fetch_result fc onAuthenticationFailed_def
        authFailedCalls_after_401_def)
  have probing: "fst (stat E u w) = Inl (NoPermissions (url r))
      \<and> authFailedCalls (snd (stat E u w)) = authFailedCalls_after_401 E w"
    if "ensureConnected w" and "responseCache w (statKey u) = None" and "uri_path u \<noteq> ''/''"
      and "remote E (length (requests w)) (request_for w (List_directory (parentPath (uri_path u)))) = Fetch_response r"
    using that
    by (simp add: stat_unfold fetch_result fc onAuthenticationFailed_def authFailedCalls_after_401_def)
  have creating: "createDirectory E u w = send E (Post_create_folder (uri_path u)) w"
    if "ensureConnected w"
    using that by (simp add: createDirectory_def)
  have deleting: "delete E u True w = send E (Post_delete (removeStartSlash (uri_path u))) w"
    if "ensureConnected w"
    using that by (simp add: delete_def)
  have renaming: "rename E u u' False w =
      send E (Put_rename (removeStartSlash (uri_path u)) (removeStartSlash (uri_path u'))) w"
    if "ensureConnected w"
    using that by (simp add: rename_def)
  have copying: "fst (copy E u u' False w) = Inl (NoPermissions (url r))
      \<and> authFailedCalls (snd (copy E u u' False w)) = authFailedCalls_after_401 E w"
    if conn: "ensureConnected w"
      and answer: "remote E (length (requests w)) (request_for w (Post_copy (uri_path u))) = Fetch_response r"
  proof -
    obtain w1 where "send E (Post_copy (uri_path u)) w = (Inl (NoPermissions (url r)), w1)"
      using sent [OF answer] by (cases "send E (Post_copy (uri_path u)) w") auto
    with conn sent [OF answer] show ?thesis
      by (simp add: copy_def)
  qed
  show ?thesis
    using rule listing probing copying sent
    by (simp add: creating deleting renaming)
qed

theorem unauthorized_response_amended_witness:
  "fst (readDirectory unauthorized_env_authenticate uri_docs connected_world) =
     Inl (NoPermissions ''https://voidium.uk/api/client/servers/a1b2c3/files'')
   \<and> authFailedCalls (snd (readDirectory unauthorized_env_authenticate uri_docs connected_world)) = 1
   \<and> authFailedCalls (snd (delete unauthorized_env uri_docs True connected_world)) = 0
   \<and> fst (createDirectory unauthorized_env uri_docs connected_world) =
       Inl (NoPermissions ''https://voidium.uk/api/client/servers/a1b2c3/files'')
   \<and> fst (rename unauthorized_env uri_docs uri_notes False connected_world) =
       Inl (NoPermissions ''https://voidium.uk/api/client/servers/a1b2c3/files'')
   \<and> fst (copy unauthorized_env uri_docs uri_notes False connected_world) =
       Inl (NoPermissions ''https://voidium.uk/api/client/servers/a1b2c3/files'')
   \<and> fst (stat unauthorized_env uri_docs connected_world) =
       Inl (NoPermissions ''https://voidium.uk/api/client/servers/a1b2c3/files'')"
proof -
  have code: "status (plain_response 401 ''Unauthorized'' []) = 401"
    by (simp add: plain_response_def)
  have conn: "ensureConnected connected_world"
    by (simp add: bridge_defs example_defs)
  have miss: "responseCache connected_world (statKey uri_docs) = None \<and> uri_path uri_docs \<noteq> ''/''"
    by (simp add: connected_world_def uri_docs_def)
  show ?thesis
    using unauthorized_response_amended [OF code, where w = connected_world and u = uri_docs
        and E = unauthorized_env_authenticate]
      unauthorized_response_amended [OF code, where w = connected_world and u = uri_docs
        and u' = uri_notes and E = unauthorized_env]
      conn miss
    by (simp add: authFailedCalls_after_401_def unauthorized_env_authenticate_def unauthorized_env_def
        plain_response_def connected_world_def)
qed

section \<open>stat: the cache, its hit counter and its eviction timeouts\<close>








section \<open>The status refresh is single-flight with one queued slot\<close>

lemma requestRefresh_in_flight:
  "refreshInFlight s \<Longrightarrow> requestRefresh s = s\<lparr>refreshQueued := True\<rparr>"
  by (simp add: requestRefresh_def)

lemma requestRefresh_repeated:
  "refreshInFlight s \<Longrightarrow> 0 < n \<Longrightarrow> (requestRefresh ^^ n) s = s\<lparr>refreshQueued := True\<rparr>"
proof (induction n)
  case 0
  then show ?case by simp
next
  case (Suc n)
  show ?case
  proof (cases "n = 0")
    case True
    with Suc.prems show ?thesis
      by (simp add: requestRefresh_in_flight)
  next
    case False
    with Suc have "(requestRefresh ^^ n) s = s\<lparr>refreshQueued := True\<rparr>"
      by simp
    moreover have "requestRefresh (s\<lparr>refreshQueued := True\<rparr>) = s\<lparr>refreshQueued := True\<rparr>"
      using Suc.prems(1) by (simp add: requestRefresh_in_flight)
    ultimately show ?thesis
      by simp
  qed
qed

lemma status_step_keeps_flag:
  "running_matches_flag s \<Longrightarrow> running_matches_flag (status_step s ev)"
  by (cases ev)
    (auto simp: running_matches_flag_def requestRefresh_def refreshSettled_def timeoutElapsed_def
      powerSignalAccepted_def timePasses_def Let_def split: if_splits)

lemma status_run_flag: "running_matches_flag (status_run evs)"
proof (induction evs rule: rev_induct)
  case Nil
  show ?case
    by (simp add: status_run_def running_matches_flag_def initial_status_def)
next
  case (snoc ev evs)
  then show ?case
    by (simp add: status_run_def status_step_keeps_flag)
qed

lemma settled_after_burst:
  assumes "refreshInFlight s" and "refreshesRunning s = 1" and "0 < n"
  shows "refreshSettled ((requestRefresh ^^ n) s) =
      s\<lparr>refreshInFlight := False, refreshQueued := False, refreshesRunning := 0,
        scheduledRefreshes := scheduledRefreshes s @ [statusClock s + 250]\<rparr>"
  using assms by (simp add: requestRefresh_repeated refreshSettled_def)

lemma timeout_runs_requestRefresh:
  "i < length (scheduledRefreshes s) \<Longrightarrow> scheduledRefreshes s ! i \<le> statusClock s \<Longrightarrow>
     timeoutElapsed i s =
       requestRefresh (s\<lparr>scheduledRefreshes := take i (scheduledRefreshes s) @ drop (Suc i) (scheduledRefreshes s)\<rparr>)"
  by (simp add: timeoutElapsed_def)

text \<open>
  C8. While a refresh is running, \<open>requestRefresh\<close> only sets the queued flag: it starts
  nothing. When the running refresh settles after any positive number of such requests,
  exactly one timeout is scheduled, due 250 ms later, and the flag is cleared; when it
  settles with nothing queued, none is scheduled. That timeout cannot run before its 250 ms
  have passed; when it runs after them it calls \<open>requestRefresh\<close>, which starts exactly one
  refresh, the trailing one, and the timeout is gone. In every run of the controller at most
  one refresh is running, and one is running exactly when \<open>refreshInFlight\<close> is set.
\<close>

theorem status_refresh_single_flight:
  "(refreshInFlight s \<longrightarrow>
      requestRefresh s = s\<lparr>refreshQueued := True\<rparr>
      \<and> refreshesStarted (requestRefresh s) = refreshesStarted s
      \<and> refreshesRunning (requestRefresh s) = refreshesRunning s)
   \<and> (refreshInFlight s \<and> refreshesRunning s = 1 \<and> 0 < n \<longrightarrow>
        refreshSettled ((requestRefresh ^^ n) s) =
          s\<lparr>refreshInFlight := False, refreshQueued := False, refreshesRunning := 0,
            scheduledRefreshes := scheduledRefreshes s @ [statusClock s + 250]\<rparr>)
   \<and> (refreshInFlight s \<and> refreshesRunning s = 1 \<and> \<not> refreshQueued s \<longrightarrow>
        refreshSettled s = s\<lparr>refreshInFlight := False, refreshesRunning := 0\<rparr>)
   \<and> (refreshInFlight s \<and> refreshesRunning s = 1 \<and> 0 < n \<and> ms < 250 \<longrightarrow>
        timeoutElapsed (length (scheduledRefreshes s))
            (timePasses ms (refreshSettled ((requestRefresh ^^ n) s))) =
          timePasses ms (refreshSettled ((requestRefresh ^^ n) s)))
   \<and> (refreshInFlight s \<and> refreshesRunning s = 1 \<and> 0 < n \<and> 250 \<le> ms \<longrightarrow>
        timeoutElapsed (length (scheduledRefreshes s))
            (timePasses ms (refreshSettled ((requestRefresh ^^ n) s))) =
          s\<lparr>refreshInFlight := True, refreshQueued := False,
            refreshesStarted := Suc (refreshesStarted s), refreshesRunning := 1,
            statusClock := statusClock s + ms\<rparr>)
   \<and> (i < length (scheduledRefreshes s) \<and> scheduledRefreshes s ! i \<le> statusClock s \<longrightarrow>
        timeoutElapsed i s =
          requestRefresh (s\<lparr>scheduledRefreshes :=
            take i (scheduledRefreshes s) @ drop (Suc i) (scheduledRefreshes s)\<rparr>))
   \<and> refreshesRunning (status_run evs) \<le> 1
   \<and> (refreshesRunning (status_run evs) = 1) = refreshInFlight (status_run evs)"
proof -
  have idle: "refreshSettled s = s\<lparr>refreshInFlight := False, refreshesRunning := 0\<rparr>"
    if "refreshInFlight s" and "refreshesRunning s = 1" and "\<not> refreshQueued s"
    using that by (simp add: refreshSettled_def)
  have early: "timeoutElapsed (length (scheduledRefreshes s))
            (timePasses ms (refreshSettled ((requestRefresh ^^ n) s))) =
          timePasses ms (refreshSettled ((requestRefresh ^^ n) s))"
    if "refreshInFlight s" and "refreshesRunning s = 1" and "0 < n" and "ms < 250"
    using that by (simp add: settled_after_burst timePasses_def timeoutElapsed_def)
  have trailing: "timeoutElapsed (length (scheduledRefreshes s))
            (timePasses ms (refreshSettled ((requestRefresh ^^ n) s))) =
          s\<lparr>refreshInFlight := True, refreshQueued := False,
            refreshesStarted := Suc (refreshesStarted s), refreshesRunning := 1,
            statusClock := statusClock s + ms\<rparr>"
    if "refreshInFlight s" and "refreshesRunning s = 1" and "0 < n" and "250 \<le> ms"
    using that
    by (simp add: settled_after_burst timePasses_def timeoutElapsed_def requestRefresh_def)
  have inv: "refreshesRunning (status_run evs) \<le> 1
      \<and> (refreshesRunning (status_run evs) = 1) = refreshInFlight (status_run evs)"
    using status_run_flag [of evs] by (simp add: running_matches_flag_def)
  show ?thesis
    using settled_after_burst [of s n] idle early trailing inv timeout_runs_requestRefresh [of i s]
    by (simp add: requestRefresh_in_flight)
qed

theorem status_refresh_single_flight_witness:
  "refreshSettled (status_run [RequestRefresh, RequestRefresh, RequestRefresh, RequestRefresh]) =
     \<lparr>refreshInFlight = False, refreshQueued = False, refreshesStarted = 1, refreshesRunning = 0,
      statusClock = 0, scheduledRefreshes = [250]\<rparr>
   \<and> requestRefresh (status_run [RequestRefresh]) =
     \<lparr>refreshInFlight = True, refreshQueued = True, refreshesStarted = 1, refreshesRunning = 1,
      statusClock = 0, scheduledRefreshes = []\<rparr>
   \<and> refreshSettled (status_run [RequestRefresh]) =
     \<lparr>refreshInFlight = False, refreshQueued = False, refreshesStarted = 1, refreshesRunning = 0,
      statusClock = 0, scheduledRefreshes = []\<rparr>
   \<and> status_run [RequestRefresh, RequestRefresh, RequestRefresh, RequestRefresh, RefreshSettled,
        TimePasses 249, TimeoutElapsed 0] =
     \<lparr>refreshInFlight = False, refreshQueued = False, refreshesStarted = 1, refreshesRunning = 0,
      statusClock = 249, scheduledRefreshes = [250]\<rparr>
   \<and> status_run [RequestRefresh, RequestRefresh, RequestRefresh, RequestRefresh, RefreshSettled,
        TimePasses 250, TimeoutElapsed 0] =
     \<lparr>refreshInFlight = True, refreshQueued = False, refreshesStarted = 2, refreshesRunning = 1,
      statusClock = 250, scheduledRefreshes = []\<rparr>
   \<and> refreshesRunning (status_run [RequestRefresh, RequestRefresh, RefreshSettled, RequestRefresh,
        TimePasses 300, TimeoutElapsed 0, RequestRefresh]) \<le> 1"
proof -
  let ?s = "status_run [RequestRefresh]"
  let ?burst = "(requestRefresh ^^ 3) ?s"
  have start: "?s =
      \<lparr>refreshInFlight = True, refreshQueued = False, refreshesStarted = 1, refreshesRunning = 1,
       statusClock = 0, scheduledRefreshes = []\<rparr>"
    by (simp add: status_run_def requestRefresh_def initial_status_def)
  have more: "status_run [RequestRefresh, RequestRefresh, RequestRefresh, RequestRefresh] = ?burst"
    by (simp add: status_run_def numeral_3_eq_3)
  have early: "status_run [RequestRefresh, RequestRefresh, RequestRefresh, RequestRefresh, RefreshSettled,
        TimePasses 249, TimeoutElapsed 0] = timeoutElapsed 0 (timePasses 249 (refreshSettled ?burst))"
    by (simp add: status_run_def numeral_3_eq_3)
  have late: "status_run [RequestRefresh, RequestRefresh, RequestRefresh, RequestRefresh, RefreshSettled,
        TimePasses 250, TimeoutElapsed 0] = timeoutElapsed 0 (timePasses 250 (refreshSettled ?burst))"
    by (simp add: status_run_def numeral_3_eq_3)
  have pre: "refreshInFlight ?s" "refreshesRunning ?s = 1" "\<not> refreshQueued ?s"
    "length (scheduledRefreshes ?s) = 0" "0 < (3::nat)" "(249::nat) < 250" "(250::nat) \<le> 250"
    by (simp_all add: start)
  note facts = status_refresh_single_flight [of ?s 3 249 0
      "[RequestRefresh, RequestRefresh, RefreshSettled, RequestRefresh, TimePasses 300, TimeoutElapsed 0, RequestRefresh]"]
  note facts' = status_refresh_single_flight [of ?s 3 250]
  have queued: "requestRefresh ?s = ?s\<lparr>refreshQueued := True\<rparr>"
    using facts pre(1) by blast
  have settled: "refreshSettled ?burst =
      ?s\<lparr>refreshInFlight := False, refreshQueued := False, refreshesRunning := 0,
        scheduledRefreshes := scheduledRefreshes ?s @ [statusClock ?s + 250]\<rparr>"
    using facts pre(1,2,5) by blast
  have idle: "refreshSettled ?s = ?s\<lparr>refreshInFlight := False, refreshesRunning := 0\<rparr>"
    using facts pre(1,2,3) by blast
  have waiting: "timeoutElapsed (length (scheduledRefreshes ?s)) (timePasses 249 (refreshSettled ?burst)) =
      timePasses 249 (refreshSettled ?burst)"
    using facts pre(1,2,5,6) by blast
  have trailing: "timeoutElapsed (length (scheduledRefreshes ?s)) (timePasses 250 (refreshSettled ?burst)) =
      ?s\<lparr>refreshInFlight := True, refreshQueued := False,
        refreshesStarted := Suc (refreshesStarted ?s), refreshesRunning := 1,
        statusClock := statusClock ?s + 250\<rparr>"
    using facts' pre(1,2,5,7) by blast
  have bound: "refreshesRunning (status_run [RequestRefresh, RequestRefresh, RefreshSettled, RequestRefresh,
        TimePasses 300, TimeoutElapsed 0, RequestRefresh]) \<le> 1"
    using facts by blast
  show ?thesis
    unfolding more early late
    using queued settled idle waiting [unfolded pre(4)] trailing [unfolded pre(4)] bound
    by (simp add: start timePasses_def)
qed

section \<open>Who sorts a listing\<close>

lemma insert_sorted_mset: "mset (insert_sorted c x ys) = add_mset x (mset ys)"
  by (induction ys) simp_all

lemma js_sort_mset: "mset (js_sort c xs) = mset xs"
  by (induction xs) (simp_all add: js_sort_def insert_sorted_mset)

lemma insert_sorted_set: "set (insert_sorted c x ys) = insert x (set ys)"
  by (induction ys) auto

lemma insert_sorted_sorted:
  assumes "consistent_comparator c" and "sorted_wrt (\<lambda>a b. c a b \<le> 0) ys"
  shows "sorted_wrt (\<lambda>a b. c a b \<le> 0) (insert_sorted c x ys)"
  using assms(2)
proof (induction ys)
  case Nil
  show ?case by simp
next
  case (Cons y ys)
  have total: "c a b \<le> 0 \<or> c b a \<le> 0" for a b
    using assms(1) by (simp add: consistent_comparator_def)
  have trans: "c a b \<le> 0 \<Longrightarrow> c b d \<le> 0 \<Longrightarrow> c a d \<le> 0" for a b d
    using assms(1) unfolding consistent_comparator_def by blast
  show ?case
  proof (cases "c x y \<le> 0")
    case True
    with Cons.prems show ?thesis
      by (auto intro: trans)
  next
    case False
    with total [of x y] have "c y x \<le> 0"
      by simp
    with False Cons show ?thesis
      by (auto simp: insert_sorted_set)
  qed
qed

lemma js_sort_sorted:
  "consistent_comparator c \<Longrightarrow> sorted_wrt (\<lambda>a b. c a b \<le> 0) (js_sort c xs)"
  by (induction xs) (simp_all add: js_sort_def insert_sorted_sorted)

lemma compareItems_consistent:
  assumes "consistent_comparator localeCompare"
  shows "consistent_comparator (compareItems localeCompare)"
proof -
  have total: "localeCompare a b \<le> 0 \<or> localeCompare b a \<le> 0" for a b
    using assms by (simp add: consistent_comparator_def)
  have trans: "localeCompare a b \<le> 0 \<Longrightarrow> localeCompare b d \<le> 0 \<Longrightarrow> localeCompare a d \<le> 0" for a b d
    using assms unfolding consistent_comparator_def by blast
  have "compareItems localeCompare a b \<le> 0 \<or> compareItems localeCompare b a \<le> 0" for a b
    using total [of "label a" "label b"] by (auto simp: compareItems_def)
  moreover have "compareItems localeCompare a d \<le> 0"
    if "compareItems localeCompare a b \<le> 0" and "compareItems localeCompare b d \<le> 0" for a b d
    using that trans [of "label a" "label b" "label d"]
    by (auto simp: compareItems_def split: if_splits)
  ultimately show ?thesis
    unfolding consistent_comparator_def by blast
qed

lemma sorted_directories_first:
  "sorted_wrt (\<lambda>a b. compareItems localeCompare a b \<le> 0) xs \<Longrightarrow> directories_first xs"
proof (induction xs)
  case Nil
  show ?case by (simp add: directories_first_def)
next
  case (Cons x xs)
  then have rest: "xs = filter (\<lambda>i. \<not> isFile i) xs @ filter isFile xs"
    by (simp add: directories_first_def)
  show ?case
  proof (cases "isFile x")
    case False
    with rest show ?thesis
      by (simp add: directories_first_def)
  next
    case True
    have "isFile y" if "y \<in> set xs" for y
      using Cons.prems that True by (auto simp: compareItems_def split: if_splits)
    then have "filter (\<lambda>i. \<not> isFile i) xs = []" and "filter isFile xs = xs"
      by (simp_all add: filter_empty_conv)
    with True show ?thesis
      by (simp add: directories_first_def)
  qed
qed

lemma sorted_group_ascending:
  assumes "sorted_wrt (\<lambda>a b. compareItems localeCompare a b \<le> 0) xs"
  shows "labels_ascending localeCompare (filter (\<lambda>i. isFile i = kind) xs)"
proof -
  have "sorted_wrt (\<lambda>a b. compareItems localeCompare a b \<le> 0) (filter (\<lambda>i. isFile i = kind) xs)"
    using assms by (rule sorted_wrt_filter)
  then show ?thesis
    unfolding labels_ascending_def
    by (rule sorted_wrt_mono_rel [rotated]) (auto simp: compareItems_def)
qed

lemma revealNextItems_allItems:
  "allItemsByDirectory (revealNextItems k e s) = allItemsByDirectory s"
  by (simp add: revealNextItems_def Let_def split: option.splits)

text \<open>
  C3 (as stated, refuted). \<open>readDirectory\<close> hands the panel's entries on in the panel's
  order: for a listing that names the file \<open>notes\<close> before the directory \<open>docs\<close>, the file
  comes first in the result.
\<close>

theorem readDirectory_order_counterexample:
  "fst (readDirectory panel_env uri_root connected_world) =
     Inr [(''notes'', FileType_File), (''docs'', FileType_Directory)]
   \<and> \<not> directories_first
        (map (\<lambda>(name, type). toTreeItem uri_root name type)
           [(''notes'', FileType_File), (''docs'', FileType_Directory)])"
  by (simp add: bridge_defs example_defs directories_first_def toTreeItem_def Let_def)

text \<open>
  C3 (amended). \<open>readDirectory\<close> keeps the panel's order; the order is made by the tree view.
  For a consistent \<open>localeCompare\<close>, the items a load stores for a directory are the listed
  entries rearranged so that every directory item precedes every file item and, within the
  directories and within the files, labels ascend under \<open>localeCompare\<close>.
\<close>

theorem tree_load_sorted_amended:
  assumes "consistent_comparator localeCompare"
  shows "mset (sortedTreeItems localeCompare d items) =
           mset (map (\<lambda>(name, type). toTreeItem d name type) items)
    \<and> directories_first (sortedTreeItems localeCompare d items)
    \<and> labels_ascending localeCompare (filter (\<lambda>i. \<not> isFile i) (sortedTreeItems localeCompare d items))
    \<and> labels_ascending localeCompare (filter isFile (sortedTreeItems localeCompare d items))
    \<and> (find (\<lambda>(p, d', e). p = promise) (pendingLoads s) = Some (promise, d, element) \<longrightarrow>
         map_of (allItemsByDirectory (loadSettled localeCompare promise (Inr items) s)) (uri_toString d)
           = Some (sortedTreeItems localeCompare d items))"
proof -
  have sorted: "sorted_wrt (\<lambda>a b. compareItems localeCompare a b \<le> 0) (sortedTreeItems localeCompare d items)"
    unfolding sortedTreeItems_def
    by (rule js_sort_sorted) (rule compareItems_consistent [OF assms])
  have stored: "map_of (allItemsByDirectory (loadSettled localeCompare promise (Inr items) s)) (uri_toString d)
           = Some (sortedTreeItems localeCompare d items)"
    if "find (\<lambda>(p, d', e). p = promise) (pendingLoads s) = Some (promise, d, element)"
    using that by (simp add: loadSettled_def Let_def revealNextItems_allItems update_conv')
  from sorted_group_ascending [OF sorted, of False] sorted_group_ascending [OF sorted, of True]
  have groups: "labels_ascending localeCompare (filter (\<lambda>i. \<not> isFile i) (sortedTreeItems localeCompare d items))"
    "labels_ascending localeCompare (filter isFile (sortedTreeItems localeCompare d items))"
    by simp_all
  show ?thesis
    using sorted_directories_first [OF sorted] groups stored
    by (simp add: sortedTreeItems_def js_sort_mset)
qed

lemma caseless_compare_consistent: "consistent_comparator caseless_compare"
  unfolding consistent_comparator_def caseless_compare_def
  by (auto split: if_splits)

theorem tree_load_sorted_amended_witness:
  "map label (sortedTreeItems caseless_compare rootUri
      [(''notes'', FileType_File), (''docs'', FileType_Directory),
       (''Alpha'', FileType_File), (''beta'', FileType_Directory)])
     = [''beta'', ''docs'', ''Alpha'', ''notes'']
   \<and> directories_first (sortedTreeItems caseless_compare rootUri
      [(''notes'', FileType_File), (''docs'', FileType_Directory),
       (''Alpha'', FileType_File), (''beta'', FileType_Directory)])
   \<and> labels_ascending caseless_compare (filter isFile (sortedTreeItems caseless_compare rootUri
      [(''notes'', FileType_File), (''docs'', FileType_Directory),
       (''Alpha'', FileType_File), (''beta'', FileType_Directory)]))
   \<and> map_of (allItemsByDirectory (loadSettled caseless_compare 0
        (Inr [(''notes'', FileType_File), (''docs'', FileType_Directory),
              (''Alpha'', FileType_File), (''beta'', FileType_Directory)])
        (tree_run caseless_compare [GetChildren None]))) ''pterodactyl:/''
     = Some (sortedTreeItems caseless_compare rootUri
        [(''notes'', FileType_File), (''docs'', FileType_Directory),
         (''Alpha'', FileType_File), (''beta'', FileType_Directory)])"
proof -
  have computed: "map label (sortedTreeItems caseless_compare rootUri
      [(''notes'', FileType_File), (''docs'', FileType_Directory),
       (''Alpha'', FileType_File), (''beta'', FileType_Directory)])
     = [''beta'', ''docs'', ''Alpha'', ''notes'']"
    by (simp add: sortedTreeItems_def js_sort_def compareItems_def toTreeItem_def Let_def
        caseless_compare_def lower_char_def FileType_File_def FileType_Directory_def)
  have pending: "find (\<lambda>(p, d', e). p = 0) (pendingLoads (tree_run caseless_compare [GetChildren None]))
      = Some (0, rootUri, None)"
    by (simp add: tree_run_def getChildren_def startAnimatedLoad_def initial_tree_def Let_def)
  have key: "uri_toString rootUri = ''pterodactyl:/''"
    by (simp add: rootUri_def)
  show ?thesis
    using tree_load_sorted_amended [OF caseless_compare_consistent, of rootUri
        "[(''notes'', FileType_File), (''docs'', FileType_Directory),
          (''Alpha'', FileType_File), (''beta'', FileType_Directory)]" 0
        "tree_run caseless_compare [GetChildren None]" None]
      computed pending
    by (simp add: key)
qed

section \<open>Loads in flight, per directory\<close>

lemma revealNextItems_loads:
  "pendingLoads (revealNextItems k e s) = pendingLoads s"
  "loadInFlightByDirectory (revealNextItems k e s) = loadInFlightByDirectory s"
  "nextHandle s \<le> nextHandle (revealNextItems k e s)"
  by (simp_all add: revealNextItems_def Let_def split: option.splits)

lemma loads_recorded_outstanding:
  assumes "loads_recorded s"
  shows "outstandingLoads k s \<le> 1"
proof -
  let ?F = "filter (\<lambda>(p, d, e). uri_toString d = k) (pendingLoads s)"
  have dist: "distinct (map fst ?F)"
    using assms by (simp add: loads_recorded_def distinct_map_filter)
  have same: "fst x = fst y" if "x \<in> set ?F" and "y \<in> set ?F" for x y
  proof -
    from that assms have "map_of (loadInFlightByDirectory s) k = Some (fst x)"
      and "map_of (loadInFlightByDirectory s) k = Some (fst y)"
      by (auto simp: loads_recorded_def list_all_iff)
    then show ?thesis
      by simp
  qed
  have "length (map fst ?F) \<le> 1"
  proof (cases ?F)
    case Nil
    then show ?thesis by simp
  next
    case (Cons x xs)
    have "xs = []"
    proof (cases xs)
      case Nil
      then show ?thesis .
    next
      case (Cons y ys)
      with \<open>?F = x # xs\<close> same [of x y] dist show ?thesis
        by auto
    qed
    with Cons show ?thesis
      by simp
  qed
  then show ?thesis
    by (simp add: outstandingLoads_def)
qed

lemma loads_recorded_startAnimatedLoad:
  assumes "loads_recorded s"
  shows "loads_recorded (startAnimatedLoad d e s)"
proof (cases "map_of (loadInFlightByDirectory s) (uri_toString d)")
  case (Some p)
  with assms show ?thesis
    by (simp add: startAnimatedLoad_def)
next
  case None
  have old: "map_of (loadInFlightByDirectory s) (uri_toString d') = Some p \<and> p < nextHandle s"
    if "(p, d', e') \<in> set (pendingLoads s)" for p d' e'
    using assms that by (auto simp: loads_recorded_def list_all_iff)
  have fresh: "nextHandle s \<notin> fst ` set (pendingLoads s)"
    using old by force
  have other: "uri_toString d' \<noteq> uri_toString d" if "(p, d', e') \<in> set (pendingLoads s)" for p d' e'
    using old [OF that] None by auto
  show ?thesis
    using assms None fresh
    by (auto simp: loads_recorded_def startAnimatedLoad_def list_all_iff update_conv'
        dest: old other less_SucI)
qed

lemma loads_recorded_getChildren:
  assumes "loads_recorded s"
  shows "loads_recorded (snd (getChildren element s))"
proof -
  let ?d = "case element of Some e \<Rightarrow> item_uri e | None \<Rightarrow> rootUri"
  let ?s1 = "s\<lparr>refreshTargetByDirectory :=
                   AList.update (uri_toString ?d) element (refreshTargetByDirectory s)\<rparr>"
  have s1: "loads_recorded ?s1"
    using assms by (simp add: loads_recorded_def)
  show ?thesis
    using s1 loads_recorded_startAnimatedLoad [OF s1, of ?d element]
    by (simp add: getChildren_def Let_def split: option.splits)
qed

lemma loads_recorded_revealNextItems:
  assumes "loads_recorded s"
  shows "loads_recorded (revealNextItems k e s)"
proof -
  have "p < nextHandle (revealNextItems k e s)" if "p < nextHandle s" for p
    using that revealNextItems_loads(3) [of s k e] by simp
  with assms show ?thesis
    by (auto simp: loads_recorded_def revealNextItems_loads list_all_iff)
qed

lemma loads_recorded_timeoutFired:
  assumes "loads_recorded s"
  shows "loads_recorded (timeoutFired h s)"
proof (cases "find (\<lambda>(h', k, e). h' = h) (pendingTimeouts s)")
  case None
  with assms show ?thesis
    by (simp add: timeoutFired_def)
next
  case (Some t)
  obtain h' k e where t: "t = (h', k, e)"
    by (cases t)
  have "loads_recorded (s\<lparr>pendingTimeouts := filter (\<lambda>(h', k, e). h' \<noteq> h) (pendingTimeouts s)\<rparr>)"
    using assms by (simp add: loads_recorded_def)
  then show ?thesis
    using Some t by (simp add: timeoutFired_def loads_recorded_revealNextItems)
qed

lemma loads_recorded_loadSettled:
  assumes "loads_recorded s"
  shows "loads_recorded (loadSettled c promise result s)"
proof (cases "find (\<lambda>(p, d, e). p = promise) (pendingLoads s)")
  case None
  with assms show ?thesis
    by (simp add: loadSettled_def)
next
  case (Some t)
  obtain p d e where t: "t = (p, d, e)"
    by (cases t)
  from Some t have mem: "(promise, d, e) \<in> set (pendingLoads s)" and p: "p = promise"
    by (auto simp: find_Some_iff in_set_conv_nth)
  let ?k = "uri_toString d"
  let ?s1 = "s\<lparr>pendingLoads := filter (\<lambda>(p, d, e). p \<noteq> promise) (pendingLoads s)\<rparr>"
  define s2 where "s2 = (case result of
                       Inr items \<Rightarrow>
                         revealNextItems ?k e
                           (?s1\<lparr>allItemsByDirectory :=
                                 AList.update ?k (sortedTreeItems c d items) (allItemsByDirectory ?s1),
                               visibleItemsByDirectory :=
                                 AList.update ?k [] (visibleItemsByDirectory ?s1)\<rparr>)
                     | Inl error \<Rightarrow>
                         ?s1\<lparr>visibleItemsByDirectory :=
                               AList.update ?k [] (visibleItemsByDirectory ?s1),
                            fired := fired ?s1 @ [e]\<rparr>)"
  have s2: "pendingLoads s2 = filter (\<lambda>(p, d, e). p \<noteq> promise) (pendingLoads s)"
    "loadInFlightByDirectory s2 = loadInFlightByDirectory s"
    "nextHandle s \<le> nextHandle s2"
  proof -
    show "pendingLoads s2 = filter (\<lambda>(p, d, e). p \<noteq> promise) (pendingLoads s)"
      by (simp add: s2_def revealNextItems_loads split: sum.splits)
    show "loadInFlightByDirectory s2 = loadInFlightByDirectory s"
      by (simp add: s2_def revealNextItems_loads split: sum.splits)
    show "nextHandle s \<le> nextHandle s2"
    proof (cases result)
      case (Inl err)
      then show ?thesis
        by (simp add: s2_def)
    next
      case (Inr items)
      let ?s = "?s1\<lparr>allItemsByDirectory :=
                    AList.update ?k (sortedTreeItems c d items) (allItemsByDirectory ?s1),
                  visibleItemsByDirectory := AList.update ?k [] (visibleItemsByDirectory ?s1)\<rparr>"
      have "nextHandle ?s \<le> nextHandle (revealNextItems ?k e ?s)"
        by (rule revealNextItems_loads(3))
      with Inr show ?thesis
        by (simp add: s2_def)
    qed
  qed
  have result: "loadSettled c promise result s =
      s2\<lparr>loadInFlightByDirectory := AList.delete ?k (loadInFlightByDirectory s2)\<rparr>"
    using Some t by (simp add: loadSettled_def s2_def Let_def)
  have old: "map_of (loadInFlightByDirectory s) (uri_toString d') = Some q \<and> q < nextHandle s"
    if "(q, d', e') \<in> set (pendingLoads s)" for q d' e'
    using assms that by (auto simp: loads_recorded_def list_all_iff)
  have other: "uri_toString d' \<noteq> ?k"
    if "(q, d', e') \<in> set (pendingLoads s)" and "q \<noteq> promise" for q d' e'
    using old [OF that(1)] old [OF mem] that(2) by auto
  have "distinct (map fst (filter (\<lambda>(p, d, e). p \<noteq> promise) (pendingLoads s)))"
    using assms by (simp add: loads_recorded_def distinct_map_filter)
  then show ?thesis
    using s2(3)
    by (auto simp: result loads_recorded_def s2(1,2) list_all_iff delete_conv' dest: old other)
qed

lemma loads_recorded_step:
  "loads_recorded s \<Longrightarrow> ev \<noteq> Refresh \<Longrightarrow> loads_recorded (tree_step c s ev)"
  by (cases ev)
    (simp_all add: loads_recorded_getChildren loads_recorded_loadSettled loads_recorded_timeoutFired)

lemma loads_recorded_run:
  "Refresh \<notin> set evs \<Longrightarrow> loads_recorded (tree_run c evs)"
proof (induction evs rule: rev_induct)
  case Nil
  show ?case
    by (simp add: tree_run_def loads_recorded_def initial_tree_def)
next
  case (snoc ev evs)
  then have "loads_recorded (tree_run c evs)" and "ev \<noteq> Refresh"
    by auto
  then have "loads_recorded (tree_step c (tree_run c evs) ev)"
    by (rule loads_recorded_step)
  then show ?case
    by (simp add: tree_run_def)
qed

section \<open>delete without recursion: the listing decides\<close>

lemma send_calls: "map req_call (requests (snd (send E c v))) = map req_call (requests v) @ [c]"
  by (cases "remote E (length (requests v)) (request_for v c)")
    (simp_all add: send_def fetch_def request_for_def forConnection_def onAuthenticationFailed_def
      Let_def split: option.splits)

text \<open>
  C4 (as stated, refuted). \<open>/docs\<close> has just been listed and holds two entries. The listing
  that \<open>delete\<close> makes next is answered 500; the error is swallowed, the item list stays
  empty, and the delete call is sent and accepted.
\<close>

theorem delete_nonrecursive_counterexample:
  "fst (readDirectory listing_fails_second_env uri_docs connected_world) =
     Inr [(''notes'', FileType_File), (''docs'', FileType_Directory)]
   \<and> fst (delete listing_fails_second_env uri_docs False
          (snd (readDirectory listing_fails_second_env uri_docs connected_world))) = Inr ()
   \<and> map req_call (requests (snd (delete listing_fails_second_env uri_docs False
          (snd (readDirectory listing_fails_second_env uri_docs connected_world))))) =
       [List_directory ''/docs'', List_directory ''/docs'', Post_delete ''docs'']"
  by (simp add: bridge_defs example_defs Let_def)

text \<open>
  C4 (amended). On a connected provider \<open>delete\<close> with \<open>recursive = false\<close> first lists the
  target. When that listing succeeds and is not empty, it fails with
  \<open>Unavailable "Directory not empty"\<close> and the listing is the only request it issues, so no
  delete call reaches the panel. When the listing fails or is empty, the delete call is sent
  right after it, and its outcome is the outcome of \<open>delete\<close>.
\<close>

theorem delete_nonrecursive_amended:
  assumes "ensureConnected w"
  shows "(fst (readDirectory E u w) = Inr items \<and> items \<noteq> [] \<longrightarrow>
            fst (delete E u False w) = Inl (Unavailable ''Directory not empty'')
            \<and> requests (snd (delete E u False w)) = requests w @ [request_for w (List_directory (uri_path u))]
            \<and> (\<forall>rq \<in> set (drop (length (requests w)) (requests (snd (delete E u False w)))).
                  \<forall>p. req_call rq \<noteq> Post_delete p))
    \<and> (isl (fst (readDirectory E u w)) \<or> fst (readDirectory E u w) = Inr [] \<longrightarrow>
            delete E u False w =
              send E (Post_delete (removeStartSlash (uri_path u))) (snd (readDirectory E u w))
            \<and> map req_call (requests (snd (delete E u False w))) =
                map req_call (requests w) @
                  [List_directory (uri_path u), Post_delete (removeStartSlash (uri_path u))])"
proof -
  obtain res w1 where listed: "readDirectory E u w = (res, w1)"
    by (cases "readDirectory E u w")
  have w1: "requests w1 = requests w @ [request_for w (List_directory (uri_path u))]"
    using assms listed by (rule readDirectory_requests)
  have full: "delete E u False w = (Inl (Unavailable ''Directory not empty''), w1)"
    if "res = Inr items" and "items \<noteq> []"
    using assms that by (simp add: delete_def listed)
  have sent: "delete E u False w = send E (Post_delete (removeStartSlash (uri_path u))) w1"
    if "isl res \<or> res = Inr []"
    using assms that by (cases res) (auto simp: delete_def listed)
  have calls: "map req_call (requests (snd (send E (Post_delete (removeStartSlash (uri_path u))) w1))) =
      map req_call (requests w) @ [List_directory (uri_path u), Post_delete (removeStartSlash (uri_path u))]"
    by (simp add: send_calls w1 request_for_def)
  show ?thesis
    using full sent calls by (auto simp: listed w1 request_for_def)
qed

theorem delete_nonrecursive_amended_witness:
  "fst (delete panel_env uri_docs False connected_world) = Inl (Unavailable ''Directory not empty'')
   \<and> map req_call (requests (snd (delete panel_env uri_docs False connected_world))) = [List_directory ''/docs'']
   \<and> map req_call (requests (snd (delete unauthorized_env uri_docs False connected_world))) =
       [List_directory ''/docs'', Post_delete ''docs'']"
proof -
  have conn: "ensureConnected connected_world"
    by (simp add: bridge_defs example_defs)
  have listed: "fst (readDirectory panel_env uri_docs connected_world) =
      Inr [(''notes'', FileType_File), (''docs'', FileType_Directory)]"
    by (simp add: bridge_defs example_defs Let_def)
  have failed: "isl (fst (readDirectory unauthorized_env uri_docs connected_world))"
    by (simp add: bridge_defs example_defs Let_def)
  have full: "fst (delete panel_env uri_docs False connected_world) = Inl (Unavailable ''Directory not empty'')
      \<and> requests (snd (delete panel_env uri_docs False connected_world)) =
          requests connected_world @ [request_for connected_world (List_directory (uri_path uri_docs))]"
    using delete_nonrecursive_amended [OF conn, of panel_env uri_docs
        "[(''notes'', FileType_File), (''docs'', FileType_Directory)]"] listed
    by simp
  have sent: "map req_call (requests (snd (delete unauthorized_env uri_docs False connected_world))) =
      map req_call (requests connected_world) @
        [List_directory (uri_path uri_docs), Post_delete (removeStartSlash (uri_path uri_docs))]"
    using delete_nonrecursive_amended [OF conn, of unauthorized_env uri_docs "[]"] failed
    by blast
  show ?thesis
    using full sent
    by (simp add: request_for_def uri_docs_def connected_world_def removeStartSlash_def)
qed

section \<open>stat twice: when the second call is answered from the cache\<close>








section \<open>Loads started since the last refresh\<close>

lemma revealNextItems_visible:
  "map_of (visibleItemsByDirectory s) k' \<noteq> None \<Longrightarrow>
     map_of (visibleItemsByDirectory (revealNextItems k e s)) k' \<noteq> None"
  by (simp add: revealNextItems_def Let_def update_conv' split: option.splits)

lemma recent_loads_okD:
  assumes "recent_loads_ok s since"
  shows "\<And>p d e. (p, d, e) \<in> set (pendingLoads s) \<Longrightarrow> p < nextHandle s"
    and "\<And>p d e. (p, d, e) \<in> set (pendingLoads s) \<Longrightarrow> since \<le> p \<Longrightarrow>
           map_of (loadInFlightByDirectory s) (uri_toString d) = Some p
           \<or> map_of (visibleItemsByDirectory s) (uri_toString d) \<noteq> None"
    and "distinct (map fst (pendingLoads s))"
    and "\<And>p d e p' d' e'. (p, d, e) \<in> set (pendingLoads s) \<Longrightarrow> (p', d', e') \<in> set (pendingLoads s) \<Longrightarrow>
           since \<le> p \<Longrightarrow> since \<le> p' \<Longrightarrow> uri_toString d = uri_toString d' \<Longrightarrow> p = p'"
proof -
  from assms have all: "\<forall>x \<in> set (pendingLoads s). case x of (p, d, e) \<Rightarrow> p < nextHandle s
                 \<and> (since \<le> p \<longrightarrow>
                       map_of (loadInFlightByDirectory s) (uri_toString d) = Some p
                       \<or> map_of (visibleItemsByDirectory s) (uri_toString d) \<noteq> None)"
    and dist: "distinct (map fst (pendingLoads s))"
    and uniq: "\<forall>x \<in> set (pendingLoads s). \<forall>y \<in> set (pendingLoads s).
            since \<le> fst x \<and> since \<le> fst y
            \<and> uri_toString (fst (snd x)) = uri_toString (fst (snd y)) \<longrightarrow> fst x = fst y"
    by (simp_all add: recent_loads_ok_def list_all_iff)
  show "p < nextHandle s" if "(p, d, e) \<in> set (pendingLoads s)" for p d e
    using bspec [OF all that] by simp
  show "map_of (loadInFlightByDirectory s) (uri_toString d) = Some p
           \<or> map_of (visibleItemsByDirectory s) (uri_toString d) \<noteq> None"
    if "(p, d, e) \<in> set (pendingLoads s)" and "since \<le> p" for p d e
    using bspec [OF all that(1)] that(2) by simp
  show "distinct (map fst (pendingLoads s))"
    by (rule dist)
  show "p = p'"
    if "(p, d, e) \<in> set (pendingLoads s)" and "(p', d', e') \<in> set (pendingLoads s)"
      and "since \<le> p" and "since \<le> p'" and "uri_toString d = uri_toString d'" for p d e p' d' e'
    using bspec [OF bspec [OF uniq that(1)] that(2)] that(3-5) by simp
qed

lemma recent_loads_okI:
  assumes "\<And>p d e. (p, d, e) \<in> set (pendingLoads s) \<Longrightarrow> p < nextHandle s"
    and "\<And>p d e. (p, d, e) \<in> set (pendingLoads s) \<Longrightarrow> since \<le> p \<Longrightarrow>
           map_of (loadInFlightByDirectory s) (uri_toString d) = Some p
           \<or> map_of (visibleItemsByDirectory s) (uri_toString d) \<noteq> None"
    and "distinct (map fst (pendingLoads s))"
    and "\<And>p d e p' d' e'. (p, d, e) \<in> set (pendingLoads s) \<Longrightarrow> (p', d', e') \<in> set (pendingLoads s) \<Longrightarrow>
           since \<le> p \<Longrightarrow> since \<le> p' \<Longrightarrow> uri_toString d = uri_toString d' \<Longrightarrow> p = p'"
  shows "recent_loads_ok s since"
proof -
  have all: "case x of (p, d, e) \<Rightarrow> p < nextHandle s
                 \<and> (since \<le> p \<longrightarrow>
                       map_of (loadInFlightByDirectory s) (uri_toString d) = Some p
                       \<or> map_of (visibleItemsByDirectory s) (uri_toString d) \<noteq> None)"
    if "x \<in> set (pendingLoads s)" for x
  proof -
    obtain p d e where x: "x = (p, d, e)"
      by (cases x)
    from that assms(1) [of p d e] assms(2) [of p d e] show ?thesis
      unfolding x by simp
  qed
  have uniq: "fst x = fst y"
    if "x \<in> set (pendingLoads s)" and "y \<in> set (pendingLoads s)"
      and "since \<le> fst x \<and> since \<le> fst y \<and> uri_toString (fst (snd x)) = uri_toString (fst (snd y))"
    for x y
  proof -
    obtain p d e where x: "x = (p, d, e)"
      by (cases x)
    obtain p' d' e' where y: "y = (p', d', e')"
      by (cases y)
    from that assms(4) [of p d e p' d' e'] show ?thesis
      unfolding x y by simp
  qed
  show ?thesis
    unfolding recent_loads_ok_def list_all_iff
    using all assms(3) uniq by blast
qed


lemma recent_loads_ok_revealNextItems:
  assumes "recent_loads_ok s since"
  shows "recent_loads_ok (revealNextItems k e s) since"
proof (rule recent_loads_okI)
  note D = recent_loads_okD [OF assms]
  show "p < nextHandle (revealNextItems k e s)"
    if "(p, d, e') \<in> set (pendingLoads (revealNextItems k e s))" for p d e'
    using D(1) [of p d e'] that revealNextItems_loads(3) [of s k e]
    by (simp add: revealNextItems_loads(1))
  show "map_of (loadInFlightByDirectory (revealNextItems k e s)) (uri_toString d) = Some p
      \<or> map_of (visibleItemsByDirectory (revealNextItems k e s)) (uri_toString d) \<noteq> None"
    if "(p, d, e') \<in> set (pendingLoads (revealNextItems k e s))" and "since \<le> p" for p d e'
    using D(2) [of p d e'] that revealNextItems_visible [of s "uri_toString d" k e]
    by (auto simp: revealNextItems_loads)
  show "distinct (map fst (pendingLoads (revealNextItems k e s)))"
    using D(3) by (simp add: revealNextItems_loads)
  show "p = p'"
    if "(p, d, e1) \<in> set (pendingLoads (revealNextItems k e s))"
      and "(p', d', e2) \<in> set (pendingLoads (revealNextItems k e s))"
      and "since \<le> p" and "since \<le> p'" and "uri_toString d = uri_toString d'" for p d e1 p' d' e2
    using D(4) [of p d e1 p' d' e2] that by (simp add: revealNextItems_loads)
qed

lemma recent_loads_ok_getChildren:
  assumes "recent_loads_ok s since"
  shows "recent_loads_ok (snd (getChildren element s)) since"
proof -
  let ?d = "case element of Some e \<Rightarrow> item_uri e | None \<Rightarrow> rootUri"
  let ?k = "uri_toString ?d"
  let ?s1 = "s\<lparr>refreshTargetByDirectory := AList.update ?k element (refreshTargetByDirectory s)\<rparr>"
  note D = recent_loads_okD [OF assms]
  have s1: "recent_loads_ok ?s1 since"
    using assms by (simp add: recent_loads_ok_def)
  show ?thesis
  proof (cases "map_of (visibleItemsByDirectory s) ?k = None \<and> map_of (loadInFlightByDirectory s) ?k = None")
    case False
    then have "snd (getChildren element s) = ?s1"
      by (auto simp: getChildren_def startAnimatedLoad_def Let_def split: option.splits)
    with s1 show ?thesis
      by simp
  next
    case True
    let ?n = "nextHandle s"
    let ?s2 = "?s1\<lparr>pendingLoads := pendingLoads s @ [(?n, ?d, element)],
             loadInFlightByDirectory := AList.update ?k ?n (loadInFlightByDirectory s),
             nextHandle := Suc ?n\<rparr>"
    have next_state: "snd (getChildren element s) = ?s2"
      using True by (simp add: getChildren_def startAnimatedLoad_def Let_def)
    have other: "uri_toString d' \<noteq> ?k"
      if "(p, d', e') \<in> set (pendingLoads s)" and "since \<le> p" for p d' e'
      using D(2) [OF that] True by auto
    have "recent_loads_ok ?s2 since"
    proof (rule recent_loads_okI)
      show "p < nextHandle ?s2" if "(p, d, e) \<in> set (pendingLoads ?s2)" for p d e
        using that D(1) [of p d e] by auto
      show "map_of (loadInFlightByDirectory ?s2) (uri_toString d) = Some p
          \<or> map_of (visibleItemsByDirectory ?s2) (uri_toString d) \<noteq> None"
        if mem: "(p, d, e) \<in> set (pendingLoads ?s2)" and recent: "since \<le> p" for p d e
      proof (cases "(p, d, e) \<in> set (pendingLoads s)")
        case True
        from other [OF True recent] D(2) [OF True recent] show ?thesis
          by (simp add: update_conv')
      next
        case False
        with mem have "p = ?n" and "d = ?d"
          by auto
        then show ?thesis
          by (simp add: update_conv')
      qed
      show "distinct (map fst (pendingLoads ?s2))"
      proof -
        have "?n \<notin> fst ` set (pendingLoads s)"
          using D(1) by force
        with D(3) show ?thesis
          by simp
      qed
      show "p = p'"
        if x: "(p, d, e) \<in> set (pendingLoads ?s2)" and y: "(p', d', e') \<in> set (pendingLoads ?s2)"
          and rx: "since \<le> p" and ry: "since \<le> p'" and same: "uri_toString d = uri_toString d'"
        for p d e p' d' e'
      proof (cases "(p, d, e) \<in> set (pendingLoads s)")
        case px: True
        show ?thesis
        proof (cases "(p', d', e') \<in> set (pendingLoads s)")
          case True
          from D(4) [OF px True rx ry same] show ?thesis .
        next
          case False
          with y have "d' = ?d"
            by auto
          with other [OF px rx] same show ?thesis
            by simp
        qed
      next
        case nx: False
        with x have new: "p = ?n" "d = ?d"
          by auto
        show ?thesis
        proof (cases "(p', d', e') \<in> set (pendingLoads s)")
          case True
          with other [OF True ry] same new show ?thesis
            by simp
        next
          case False
          with y new show ?thesis
            by auto
        qed
      qed
    qed
    with next_state show ?thesis
      by simp
  qed
qed


lemma recent_loads_ok_timeoutFired:
  assumes "recent_loads_ok s since"
  shows "recent_loads_ok (timeoutFired h s) since"
proof (cases "find (\<lambda>(h', k, e). h' = h) (pendingTimeouts s)")
  case None
  with assms show ?thesis
    by (simp add: timeoutFired_def)
next
  case (Some t)
  obtain h' k e where t: "t = (h', k, e)"
    by (cases t)
  have "recent_loads_ok (s\<lparr>pendingTimeouts := filter (\<lambda>(h', k, e). h' \<noteq> h) (pendingTimeouts s)\<rparr>) since"
    using assms by (simp add: recent_loads_ok_def)
  then show ?thesis
    using Some t by (simp add: timeoutFired_def recent_loads_ok_revealNextItems)
qed

lemma recent_loads_ok_loadSettled:
  assumes "recent_loads_ok s since"
  shows "recent_loads_ok (loadSettled c promise result s) since"
proof (cases "find (\<lambda>(p, d, e). p = promise) (pendingLoads s)")
  case None
  with assms show ?thesis
    by (simp add: loadSettled_def)
next
  case (Some t)
  obtain p0 d0 e0 where t: "t = (p0, d0, e0)"
    by (cases t)
  note D = recent_loads_okD [OF assms]
  let ?k = "uri_toString d0"
  let ?s1 = "s\<lparr>pendingLoads := filter (\<lambda>(p, d, e). p \<noteq> promise) (pendingLoads s)\<rparr>"
  let ?ok = "?s1\<lparr>allItemsByDirectory :=
                 AList.update ?k (sortedTreeItems c d0 (projr result)) (allItemsByDirectory ?s1),
               visibleItemsByDirectory := AList.update ?k [] (visibleItemsByDirectory ?s1)\<rparr>"
  let ?failed = "?s1\<lparr>visibleItemsByDirectory := AList.update ?k [] (visibleItemsByDirectory ?s1),
               fired := fired ?s1 @ [e0]\<rparr>"
  define s2 where "s2 = (if isl result then ?failed else revealNextItems ?k e0 ?ok)"
  have result: "loadSettled c promise result s =
      s2\<lparr>loadInFlightByDirectory := AList.delete ?k (loadInFlightByDirectory s2)\<rparr>"
    using Some t by (cases result) (simp_all add: loadSettled_def s2_def Let_def)
  have pend: "pendingLoads s2 = filter (\<lambda>(p, d, e). p \<noteq> promise) (pendingLoads s)"
    and inflight: "loadInFlightByDirectory s2 = loadInFlightByDirectory s"
    by (simp_all add: s2_def revealNextItems_loads)
  have handle: "nextHandle s \<le> nextHandle s2"
    using revealNextItems_loads(3) [of ?ok ?k e0] by (simp add: s2_def)
  have shown: "map_of (visibleItemsByDirectory s2) ?k \<noteq> None"
  proof (cases "isl result")
    case True
    then show ?thesis
      by (simp add: s2_def update_conv')
  next
    case False
    have "map_of (visibleItemsByDirectory ?ok) ?k \<noteq> None"
      by (simp add: update_conv')
    from revealNextItems_visible [OF this, of ?k e0] False show ?thesis
      by (simp add: s2_def)
  qed
  have still: "map_of (visibleItemsByDirectory s2) k' \<noteq> None"
    if "map_of (visibleItemsByDirectory s) k' \<noteq> None" for k'
  proof (cases "isl result")
    case True
    with that show ?thesis
      by (simp add: s2_def update_conv')
  next
    case False
    from that have "map_of (visibleItemsByDirectory ?ok) k' \<noteq> None"
      by (simp add: update_conv')
    from revealNextItems_visible [OF this, of ?k e0] False show ?thesis
      by (simp add: s2_def)
  qed
  let ?s3 = "s2\<lparr>loadInFlightByDirectory := AList.delete ?k (loadInFlightByDirectory s2)\<rparr>"
  have "recent_loads_ok ?s3 since"
  proof (rule recent_loads_okI)
    show "p < nextHandle ?s3" if "(p, d, e) \<in> set (pendingLoads ?s3)" for p d e
      using that D(1) [of p d e] handle by (simp add: pend)
    show "map_of (loadInFlightByDirectory ?s3) (uri_toString d) = Some p
        \<or> map_of (visibleItemsByDirectory ?s3) (uri_toString d) \<noteq> None"
      if mem: "(p, d, e) \<in> set (pendingLoads ?s3)" and recent: "since \<le> p" for p d e
    proof (cases "uri_toString d = ?k")
      case True
      with shown show ?thesis
        by simp
    next
      case False
      from mem have "(p, d, e) \<in> set (pendingLoads s)"
        by (simp add: pend)
      from D(2) [OF this recent] False still [of "uri_toString d"] show ?thesis
        by (auto simp: inflight delete_conv')
    qed
    show "distinct (map fst (pendingLoads ?s3))"
      using D(3) by (simp add: pend distinct_map_filter)
    show "p = p'"
      if "(p, d, e) \<in> set (pendingLoads ?s3)" and "(p', d', e') \<in> set (pendingLoads ?s3)"
        and "since \<le> p" and "since \<le> p'" and "uri_toString d = uri_toString d'"
      for p d e p' d' e'
      using D(4) [of p d e p' d' e'] that by (simp add: pend)
  qed
  with result show ?thesis
    by simp
qed

lemma recent_loads_ok_refresh:
  assumes "recent_loads_ok s since"
  shows "recent_loads_ok (refresh s) (nextHandle s)"
proof (rule recent_loads_okI)
  note D = recent_loads_okD [OF assms]
  show "p < nextHandle (refresh s)" if "(p, d, e) \<in> set (pendingLoads (refresh s))" for p d e
    using that D(1) [of p d e] by (simp add: refresh_def)
  show "map_of (loadInFlightByDirectory (refresh s)) (uri_toString d) = Some p
        \<or> map_of (visibleItemsByDirectory (refresh s)) (uri_toString d) \<noteq> None"
    if "(p, d, e) \<in> set (pendingLoads (refresh s))" and "nextHandle s \<le> p" for p d e
    using that D(1) [of p d e] by (simp add: refresh_def)
  show "distinct (map fst (pendingLoads (refresh s)))"
    using D(3) by (simp add: refresh_def)
  show "p = p'"
    if "(p, d, e) \<in> set (pendingLoads (refresh s))" and "(p', d', e') \<in> set (pendingLoads (refresh s))"
      and "nextHandle s \<le> p" and "nextHandle s \<le> p'" and "uri_toString d = uri_toString d'"
    for p d e p' d' e'
    using that D(1) [of p d e] by (simp add: refresh_def)
qed

lemma recent_loads_ok_track:
  assumes "recent_loads_ok (fst x) (snd x)"
  shows "recent_loads_ok (fst (tree_track c x ev)) (snd (tree_track c x ev))"
proof -
  obtain s since where x: "x = (s, since)"
    by (cases x)
  from assms show ?thesis
    unfolding x
    by (cases ev)
      (simp_all add: recent_loads_ok_getChildren recent_loads_ok_refresh
        recent_loads_ok_loadSettled recent_loads_ok_timeoutFired)
qed

lemma recent_loads_ok_run:
  "recent_loads_ok (fst (tree_run_since c evs)) (snd (tree_run_since c evs))"
proof (induction evs rule: rev_induct)
  case Nil
  show ?case
    by (simp add: tree_run_since_def recent_loads_ok_def initial_tree_def)
next
  case (snoc ev evs)
  from recent_loads_ok_track [OF snoc, of c ev] show ?case
    by (simp add: tree_run_since_def)
qed

lemma tree_run_since_state: "fst (tree_run_since c evs) = tree_run c evs"
proof (induction evs rule: rev_induct)
  case Nil
  show ?case
    by (simp add: tree_run_since_def tree_run_def)
next
  case (snoc ev evs)
  obtain s since where x: "tree_run_since c evs = (s, since)"
    by (cases "tree_run_since c evs")
  with snoc have "tree_run c evs = s"
    by simp
  then show ?case
    by (simp add: tree_run_since_def tree_run_def x [unfolded tree_run_since_def])
qed

lemma recent_loads_at_most_one:
  assumes "recent_loads_ok s since"
  shows "recentLoads k since s \<le> 1"
proof -
  note D = recent_loads_okD [OF assms]
  let ?F = "filter (\<lambda>(p, d, e). uri_toString d = k \<and> since \<le> p) (pendingLoads s)"
  have dist: "distinct (map fst ?F)"
    using D(3) by (simp add: distinct_map_filter)
  have same: "fst x = fst y" if "x \<in> set ?F" and "y \<in> set ?F" for x y
  proof -
    obtain p d e where x: "x = (p, d, e)"
      by (cases x)
    obtain p' d' e' where y: "y = (p', d', e')"
      by (cases y)
    from that D(4) [of p d e p' d' e'] show ?thesis
      unfolding x y by simp
  qed
  have "length ?F \<le> 1"
  proof (cases ?F)
    case Nil
    then show ?thesis by simp
  next
    case (Cons x xs)
    have "xs = []"
    proof (cases xs)
      case Nil
      then show ?thesis .
    next
      case (Cons y ys)
      with \<open>?F = x # xs\<close> same [of x y] dist show ?thesis
        by auto
    qed
    with Cons show ?thesis
      by simp
  qed
  then show ?thesis
    by (simp add: recentLoads_def)
qed

lemma loads_recorded_refresh_idle:
  "loads_recorded s \<Longrightarrow> pendingLoads s = [] \<Longrightarrow> loads_recorded (refresh s)"
  by (simp add: loads_recorded_def refresh_def)

lemma loads_recorded_idle_from:
  "loads_recorded s \<Longrightarrow> refreshes_idle_from c s evs \<Longrightarrow> loads_recorded (foldl (tree_step c) s evs)"
proof (induction evs arbitrary: s)
  case Nil
  then show ?case by simp
next
  case (Cons ev evs)
  have "loads_recorded (tree_step c s ev)"
  proof (cases "ev = Refresh")
    case True
    with Cons.prems show ?thesis
      by (simp add: loads_recorded_refresh_idle)
  next
    case False
    with Cons.prems(1) show ?thesis
      by (rule loads_recorded_step)
  qed
  with Cons show ?case
    by simp
qed

lemma loads_recorded_idle_run:
  "refreshes_idle c evs \<Longrightarrow> loads_recorded (tree_run c evs)"
  unfolding refreshes_idle_def tree_run_def
  by (rule loads_recorded_idle_from) (simp add: loads_recorded_def initial_tree_def)

text \<open>
  C7 (as stated, refuted). The root is expanded, \<open>refresh()\<close> is called while its listing is
  still outstanding, and the root is queried again: \<open>refresh()\<close> has emptied
  \<open>loadInFlightByDirectory\<close> without cancelling anything, so a second listing request is
  issued and two are outstanding for the same directory.
\<close>

theorem single_flight_refresh_counterexample:
  "outstandingLoads ''pterodactyl:/'' (tree_run caseless_compare [GetChildren None]) = 1
   \<and> outstandingLoads ''pterodactyl:/''
        (tree_run caseless_compare [GetChildren None, Refresh, GetChildren None]) = 2"
  by (simp add: tree_run_def getChildren_def startAnimatedLoad_def refresh_def outstandingLoads_def
      initial_tree_def rootUri_def Let_def)

text \<open>
  C7 (amended). In every run, whatever the order of queries, settled loads, reveal
  timeouts and calls of \<open>refresh()\<close>, at most one of the listing loads started since the
  last \<open>refresh()\<close> is outstanding for every directory; so in every run whose calls of
  \<open>refresh()\<close> are made while no listing is outstanding, at most one listing load is
  outstanding for every directory at all. A load started while \<open>loadInFlightByDirectory\<close>
  holds a promise for the directory issues no request and changes nothing. Only a
  \<open>refresh()\<close> made while a listing is outstanding lets a later query start a second one
  beside it.
\<close>

theorem single_flight_since_refresh:
  "loadsSinceRefresh localeCompare directoryKey evs \<le> 1
   \<and> (refreshes_idle localeCompare evs \<longrightarrow>
        outstandingLoads directoryKey (tree_run localeCompare evs) \<le> 1)
   \<and> (Refresh \<notin> set evs \<longrightarrow> outstandingLoads directoryKey (tree_run localeCompare evs) \<le> 1)
   \<and> (map_of (loadInFlightByDirectory s) (uri_toString d) \<noteq> None \<longrightarrow>
        startAnimatedLoad d element s = s)"
proof -
  have recent: "loadsSinceRefresh localeCompare directoryKey evs \<le> 1"
    unfolding loadsSinceRefresh_def
    by (rule recent_loads_at_most_one) (rule recent_loads_ok_run)
  have idle: "outstandingLoads directoryKey (tree_run localeCompare evs) \<le> 1"
    if "refreshes_idle localeCompare evs"
    using that by (intro loads_recorded_outstanding loads_recorded_idle_run)
  have none: "outstandingLoads directoryKey (tree_run localeCompare evs) \<le> 1"
    if "Refresh \<notin> set evs"
    using that by (intro loads_recorded_outstanding loads_recorded_run)
  have waits: "startAnimatedLoad d element s = s"
    if "map_of (loadInFlightByDirectory s) (uri_toString d) \<noteq> None"
    using that by (auto simp: startAnimatedLoad_def)
  from recent idle none waits show ?thesis
    by blast
qed

theorem single_flight_since_refresh_witness:
  "loadsSinceRefresh caseless_compare ''pterodactyl:/''
     [GetChildren None, Refresh, GetChildren None, GetChildren None] \<le> 1
   \<and> outstandingLoads ''pterodactyl:/''
     (tree_run caseless_compare
        [GetChildren None, GetChildren None, LoadSettled 0 (Inl (Js_error ''fetch failed'')),
         Refresh, GetChildren None, GetChildren None]) \<le> 1
   \<and> outstandingLoads ''pterodactyl:/''
     (tree_run caseless_compare [GetChildren None, GetChildren None]) \<le> 1
   \<and> startAnimatedLoad rootUri None (tree_run caseless_compare [GetChildren None]) =
       tree_run caseless_compare [GetChildren None]"
proof -
  let ?evs = "[GetChildren None, GetChildren None, LoadSettled 0 (Inl (Js_error ''fetch failed'')),
         Refresh, GetChildren None, GetChildren None]"
  have idle: "refreshes_idle caseless_compare ?evs"
    by (simp add: refreshes_idle_def getChildren_def startAnimatedLoad_def loadSettled_def
        initial_tree_def rootUri_def Let_def update_conv')
  have inflight: "map_of (loadInFlightByDirectory (tree_run caseless_compare [GetChildren None]))
      (uri_toString rootUri) \<noteq> None"
    by (simp add: tree_run_def getChildren_def startAnimatedLoad_def initial_tree_def rootUri_def Let_def)
  have recent: "loadsSinceRefresh caseless_compare ''pterodactyl:/''
     [GetChildren None, Refresh, GetChildren None, GetChildren None] \<le> 1"
    using single_flight_since_refresh
        [of caseless_compare "''pterodactyl:/''" "[GetChildren None, Refresh, GetChildren None, GetChildren None]"]
    by blast
  have bound: "outstandingLoads ''pterodactyl:/'' (tree_run caseless_compare ?evs) \<le> 1"
    using single_flight_since_refresh [of caseless_compare "''pterodactyl:/''" ?evs] idle
    by blast
  have waits: "startAnimatedLoad rootUri None (tree_run caseless_compare [GetChildren None]) =
       tree_run caseless_compare [GetChildren None]"
    using single_flight_since_refresh [of caseless_compare _ _ "tree_run caseless_compare [GetChildren None]" rootUri None]
      inflight
    by blast
  have plain: "outstandingLoads ''pterodactyl:/''
     (tree_run caseless_compare [GetChildren None, GetChildren None]) \<le> 1"
    using single_flight_since_refresh
        [of caseless_compare "''pterodactyl:/''" "[GetChildren None, GetChildren None]"]
    by simp
  from recent bound plain waits show ?thesis
    by simp
qed

end
